theory Spec2Isabelle
  imports Main "HOL-Library.AList" "HOL-Library.Sublist"
begin

section \<open>The video task manager of pyvision (src/pyvision/beta/vtm.py)\<close>

text \<open>
  The module is Python 2. Its values are dynamically typed; the model fixes the types the
  module's own documentation gives them: a data type tag is a string, a frame id is an
  integer, a payload is a value of an arbitrary type \<open>'p\<close>.

  What the model leaves out: the INFO lines printed at \<open>debug_level >= 3\<close> (they carry
  wall-clock times read with \<open>time.time()\<close>), task factories and \<open>required()\<close> methods
  that raise, and the textual rendering of a task inside a warning line.
\<close>

subsection \<open>Tuples\<close>

text \<open>
  A request key and a produced data item are Python tuples. A tuple is modelled with its
  components typed by position: the first is a type tag, the second a frame id, every
  further one a payload. \<open>Tup3 ty fid d ds\<close> is the tuple \<open>(ty, fid, d) + tuple(ds)\<close>.
\<close>

datatype 'p tup =
    Tup0
  | Tup1 string
  | Tup2 string int
  | Tup3 string int 'p "'p list"

fun len :: "'p tup \<Rightarrow> nat" where
  "len Tup0 = 0"
| "len (Tup1 ty) = 1"
| "len (Tup2 ty fid) = 2"
| "len (Tup3 ty fid d ds) = 3 + length ds"

subsection \<open>VideoTask\<close>

text \<open>
  What \<open>execute\<close> hands back: it raises, or it returns a value \<open>len()\<close> refuses, or it
  returns a list of tuples.
\<close>

datatype 'p execute_result =
    Raises
  | NoLen
  | Items "'p tup list"

record 'p VideoTask =
  task_frame_id :: int
  args :: "'p tup list"
  execute :: "'p list \<Rightarrow> 'p execute_result"

definition getFrameId :: "'p VideoTask \<Rightarrow> int" where
  "getFrameId task = task_frame_id task"

definition required :: "'p VideoTask \<Rightarrow> 'p tup list" where
  "required task = args task"

subsection \<open>_VideoDataItem\<close>

text \<open>
  The fields \<open>_data_type\<close>, \<open>_frame_id\<close> and \<open>_data\<close> are written by the constructor
  only. The counter \<open>_touched\<close> is the one field that is mutated, and the same object can
  be reached from the data cache and from the frame list; so the counters live in a store
  of the manager (\<open>touched\<close> below) and an object carries the cell of its counter.
  An object that is built inside one evaluation and never stored (a default item) has no
  cell: its counter is gone with it.
\<close>

record 'p VideoDataItem =
  data_type :: string
  data_frame_id :: int
  data :: 'p
  cell :: "nat option"

definition getKey :: "'p VideoDataItem \<Rightarrow> string \<times> int" where
  "getKey item = (data_type item, data_frame_id item)"

definition touch :: "'p VideoDataItem \<Rightarrow> (nat \<Rightarrow> nat) \<Rightarrow> (nat \<Rightarrow> nat)" where
  "touch item tc = (case cell item of None \<Rightarrow> tc | Some c \<Rightarrow> tc(c := tc c + 1))"

definition getTouched :: "(nat \<Rightarrow> nat) \<Rightarrow> 'p VideoDataItem \<Rightarrow> nat" where
  "getTouched tc item = (case cell item of None \<Rightarrow> 0 | Some c \<Rightarrow> tc c)"

subsection \<open>VideoTaskManager\<close>

datatype error = KeyError | TaskRaised | InvalidList | InvalidItem

text \<open>The WARNING lines written to standard output (at \<open>debug_level >= 2\<close>).\<close>

datatype message =
    TaskNotExecuted int
  | DataNeverUsed string int

text \<open>The calls made to the sinks: \<open>frame.show(delay=30)\<close> and \<open>ilog(frame,format='jpg')\<close>.\<close>

datatype 'p sink_call = Show 'p | Ilog 'p

text \<open>
  The first eight fields are the attributes of the class (\<open>show\<close> is \<open>show_flag\<close> here).
  \<open>data_cache\<close> is a dictionary; it is an association list so that \<open>keys()\<close> has an order
  (Python leaves the order open; it only decides the order of warning lines).
  \<open>touched\<close> and \<open>next_cell\<close> are the store of counters, \<open>printed\<close> and \<open>sink_calls\<close>
  are the output.
\<close>

record 'p VideoTaskManager =
  debug_level :: int
  frame_id :: int
  task_list :: "'p VideoTask list"
  task_factories :: "(int \<Rightarrow> 'p VideoTask) list"
  data_cache :: "((string \<times> int) \<times> 'p VideoDataItem) list"
  buffer_size :: int
  frame_list :: "'p VideoDataItem list"
  show_flag :: bool
  touched :: "nat \<Rightarrow> nat"
  next_cell :: nat
  printed :: "message list"
  sink_calls :: "'p sink_call list"

definition VideoTaskManager_init :: "int \<Rightarrow> int \<Rightarrow> bool \<Rightarrow> 'p VideoTaskManager" where
  "VideoTaskManager_init dbg bsize shw =
     \<lparr> debug_level = dbg, frame_id = 0, task_list = [], task_factories = [],
       data_cache = [], buffer_size = bsize, frame_list = [], show_flag = shw,
       touched = (\<lambda>c. 0), next_cell = 0, printed = [], sink_calls = [] \<rparr>"

definition addTaskFactory ::
  "'p VideoTaskManager \<Rightarrow> (int \<Rightarrow> 'p VideoTask) \<Rightarrow> 'p VideoTaskManager" where
  "addTaskFactory s task_factory = s\<lparr>task_factories := task_factories s @ [task_factory]\<rparr>"

text \<open>
  The constructor \<open>_VideoDataItem((ty, fid, d))\<close> of an object the manager keeps: it
  takes a fresh cell and sets the counter there to 0. The result is the object and the
  manager with the cell taken.
\<close>

definition VideoDataItem_init ::
  "string \<Rightarrow> int \<Rightarrow> 'p \<Rightarrow> 'p VideoTaskManager \<Rightarrow> 'p VideoDataItem \<times> 'p VideoTaskManager" where
  "VideoDataItem_init ty fid d s =
     (\<lparr>data_type = ty, data_frame_id = fid, data = d, cell = Some (next_cell s)\<rparr>,
      s\<lparr>touched := (touched s)(next_cell s := 0), next_cell := Suc (next_cell s)\<rparr>)"

text \<open>\<open>self.data_cache[key] = item\<close>: the entry at \<open>key\<close> is replaced or created.\<close>

definition cache_put ::
  "string \<times> int \<Rightarrow> 'p VideoDataItem \<Rightarrow> 'p VideoTaskManager \<Rightarrow> 'p VideoTaskManager" where
  "cache_put key item s = s\<lparr>data_cache := AList.update key item (data_cache s)\<rparr>"

definition createTasksForFrame :: "'p VideoTaskManager \<Rightarrow> int \<Rightarrow> 'p VideoTaskManager" where
  "createTasksForFrame s fid =
     fold (\<lambda>factory s'. s'\<lparr>task_list := task_list s' @ [factory fid]\<rparr>) (task_factories s) s"

subsubsection \<open>_evaluateTask\<close>

text \<open>
  \<open>self.data_cache.has_key(key[:2])\<close> and \<open>self.data_cache[key[:2]]\<close>. Every key of the
  dictionary is a pair, so a \<open>key[:2]\<close> with fewer than two components is never found.
\<close>

fun lookup_key :: "((string \<times> int) \<times> 'p VideoDataItem) list \<Rightarrow> 'p tup \<Rightarrow> 'p VideoDataItem option" where
  "lookup_key cache (Tup2 ty fid) = map_of cache (ty, fid)"
| "lookup_key cache (Tup3 ty fid d ds) = map_of cache (ty, fid)"
| "lookup_key cache key = None"

text \<open>\<open>_VideoDataItem(key)\<close> under \<open>len(key) > 2\<close>: the default item, not stored anywhere.\<close>

fun default_item :: "'p tup \<Rightarrow> 'p VideoDataItem option" where
  "default_item (Tup3 ty fid d ds) =
     Some \<lparr>data_type = ty, data_frame_id = fid, data = d, cell = None\<rparr>"
| "default_item key = None"

text \<open>
  The loop over \<open>data_request\<close> (lines 233 to 242). \<open>None\<close> is the \<open>return True\<close> of the
  loop: a key is neither in the cache nor longer than two.
\<close>

fun fetch :: "((string \<times> int) \<times> 'p VideoDataItem) list \<Rightarrow> 'p tup list \<Rightarrow> 'p VideoDataItem list option" where
  "fetch cache [] = Some []"
| "fetch cache (key # data_request) =
     (case lookup_key cache key of
        Some item \<Rightarrow> map_option (Cons item) (fetch cache data_request)
      | None \<Rightarrow>
          (case default_item key of
             Some item \<Rightarrow> map_option (Cons item) (fetch cache data_request)
           | None \<Rightarrow> None))"

text \<open>
  The loop over \<open>result\<close> (lines 263 to 267). \<open>len(data_item) != 3\<close> holds for every
  tuple that is not \<open>Tup3 ty fid d []\<close> (lemma \<open>len_eq_3\<close> below).
\<close>

fun store_results :: "'p tup list \<Rightarrow> 'p VideoTaskManager \<Rightarrow> error option \<times> 'p VideoTaskManager" where
  "store_results [] s = (None, s)"
| "store_results (Tup3 ty fid d [] # result) s =
     (let (item, s1) = VideoDataItem_init ty fid d s
      in store_results result (cache_put (ty, fid) item s1))"
| "store_results (data_item # result) s = (Some InvalidItem, s)"

text \<open>
  The result is what the call does (\<open>Inl\<close>: it raises; \<open>Inr b\<close>: it returns \<open>b\<close>) and the
  manager as the call leaves it. The \<open>except KeyError\<close> clause has nothing to catch:
  the dictionary is read only after \<open>has_key\<close> said yes.
\<close>

definition evaluateTask ::
  "'p VideoTaskManager \<Rightarrow> 'p VideoTask \<Rightarrow> (error + bool) \<times> 'p VideoTaskManager" where
  "evaluateTask s task =
     (if frame_id s - getFrameId task > buffer_size s then
        (Inr False,
         if debug_level s \<ge> 2
         then s\<lparr>printed := printed s @ [TaskNotExecuted (getFrameId task)]\<rparr> else s)
      else
        (case fetch (data_cache s) (required task) of
           None \<Rightarrow> (Inr True, s)
         | Some data_items \<Rightarrow>
             (let args = map data data_items;
                  s1 = s\<lparr>touched := fold touch data_items (touched s)\<rparr>
              in case execute task args of
                   Raises \<Rightarrow> (Inl TaskRaised, s1)
                 | NoLen \<Rightarrow> (Inl InvalidList, s1)
                 | Items result \<Rightarrow>
                     (case store_results result s1 of
                        (Some e, s2) \<Rightarrow> (Inl e, s2)
                      | (None, s2) \<Rightarrow> (Inr False, s2)))))"

subsubsection \<open>_runTasks\<close>

text \<open>
  \<open>filter(self._evaluateTask, self.task_list)\<close>, Python 2's list-building \<open>filter\<close>: the
  tasks are evaluated in order, each on the manager as the one before left it; an
  exception ends the scan and no list is built.
\<close>

fun filter_evaluateTask ::
  "'p VideoTask list \<Rightarrow> 'p VideoTaskManager \<Rightarrow> (error + 'p VideoTask list) \<times> 'p VideoTaskManager" where
  "filter_evaluateTask [] s = (Inr [], s)"
| "filter_evaluateTask (task # tasks) s =
     (case evaluateTask s task of
        (Inl e, s1) \<Rightarrow> (Inl e, s1)
      | (Inr keep, s1) \<Rightarrow>
          (case filter_evaluateTask tasks s1 of
             (Inl e, s2) \<Rightarrow> (Inl e, s2)
           | (Inr kept, s2) \<Rightarrow> (Inr (if keep then task # kept else kept), s2)))"

function runTasks :: "'p VideoTaskManager \<Rightarrow> error option \<times> 'p VideoTaskManager" where
  "runTasks s =
     (case filter_evaluateTask (task_list s) s of
        (Inl e, s1) \<Rightarrow> (Some e, s1)
      | (Inr kept, s1) \<Rightarrow>
          (if length (task_list s) = length kept then (None, s1\<lparr>task_list := kept\<rparr>)
           else runTasks (s1\<lparr>task_list := kept\<rparr>)))"
  by pat_completeness auto
termination
proof (relation "measure (\<lambda>s. length (task_list s))")
  show "wf (measure (\<lambda>s::'p VideoTaskManager. length (task_list s)))"
    by simp
next
  fix s :: "'p VideoTaskManager" and x s1 kept
  assume scan: "(x, s1) = filter_evaluateTask (task_list s) s" "x = Inr kept"
    and neq: "length (task_list s) \<noteq> length kept"
  have le: "length kept' \<le> length tasks"
    if "filter_evaluateTask tasks s0 = (Inr kept', s')"
    for tasks kept' and s0 s' :: "'p VideoTaskManager"
    using that
  proof (induction tasks arbitrary: s0 kept' s')
    case Nil
    then show ?case by simp
  next
    case (Cons task tasks)
    then show ?case
      by (fastforce split: prod.splits sum.splits if_splits)
  qed
  from scan have "length kept \<le> length (task_list s)"
    using le [of "task_list s" s kept s1] by simp
  with neq show "(s1\<lparr>task_list := kept\<rparr>, s) \<in> measure (\<lambda>s. length (task_list s))"
    by simp
qed

declare runTasks.simps [simp del]

subsubsection \<open>_remainingTasksForFrame, _cleanUp, showFrames\<close>

definition remainingTasksForFrame :: "'p VideoTaskManager \<Rightarrow> int \<Rightarrow> nat" where
  "remainingTasksForFrame s fid =
     fold (\<lambda>task count. if getFrameId task = fid then count + 1 else count) (task_list s) 0"

text \<open>
  The loop of \<open>_cleanUp\<close> over \<open>data_keys\<close>, the list \<open>keys()\<close> returned before the loop
  began. \<open>self.data_cache[key]\<close> raises \<open>KeyError\<close> on a key that is not there.
\<close>

fun cleanUp_loop ::
  "(string \<times> int) list \<Rightarrow> 'p VideoTaskManager \<Rightarrow> error option \<times> 'p VideoTaskManager" where
  "cleanUp_loop [] s = (None, s)"
| "cleanUp_loop (key # data_keys) s =
     (case map_of (data_cache s) key of
        None \<Rightarrow> (Some KeyError, s)
      | Some data_item \<Rightarrow>
          (if data_frame_id data_item < frame_id s - buffer_size s then
             cleanUp_loop data_keys
               (s\<lparr> printed := printed s @
                     (if debug_level s \<ge> 2 \<and> getTouched (touched s) data_item = 0
                      then [DataNeverUsed (data_type data_item) (data_frame_id data_item)]
                      else []),
                   data_cache := AList.delete key (data_cache s) \<rparr>)
           else cleanUp_loop data_keys s))"

definition cleanUp :: "'p VideoTaskManager \<Rightarrow> error option \<times> 'p VideoTaskManager" where
  "cleanUp s = cleanUp_loop (map fst (data_cache s)) s"

text \<open>\<open>ilog\<close> is whether the caller passed a log (\<open>ilog != None\<close>).\<close>

function showFrames :: "'p VideoTaskManager \<Rightarrow> bool \<Rightarrow> 'p VideoTaskManager" where
  "showFrames s ilog =
     (case frame_list s of
        [] \<Rightarrow> s
      | frame_data # rest \<Rightarrow>
          (if remainingTasksForFrame s (data_frame_id frame_data) = 0 then
             showFrames
               (s\<lparr> sink_calls := sink_calls s @
                     (if show_flag s then [Show (data frame_data)] else []) @
                     (if ilog then [Ilog (data frame_data)] else []),
                   frame_list := rest \<rparr>) ilog
           else s))"
  by pat_completeness auto
termination
  by (relation "measure (\<lambda>(s, ilog). length (frame_list s))") auto

declare showFrames.simps [simp del]

subsubsection \<open>addFrame\<close>

text \<open>Lines 169 to 172: the frame becomes a data item, the factories run, the frame is queued.\<close>

definition ingest :: "'p VideoTaskManager \<Rightarrow> 'p \<Rightarrow> 'p VideoTaskManager" where
  "ingest s frame =
     (let (frame_data, s0) = VideoDataItem_init ''FRAME'' (frame_id s) frame s;
          s1 = cache_put (getKey frame_data) frame_data s0;
          s2 = createTasksForFrame s1 (frame_id s1)
      in s2\<lparr>frame_list := frame_list s2 @ [frame_data]\<rparr>)"

text \<open>Lines 174 to 182. An exception leaves the manager as it is at that moment.\<close>

definition addFrame ::
  "'p VideoTaskManager \<Rightarrow> 'p \<Rightarrow> bool \<Rightarrow> error option \<times> 'p VideoTaskManager" where
  "addFrame s frame ilog =
     (case runTasks (ingest s frame) of
        (Some e, s4) \<Rightarrow> (Some e, s4)
      | (None, s4) \<Rightarrow>
          (case cleanUp s4 of
             (Some e, s5) \<Rightarrow> (Some e, s5)
           | (None, s5) \<Rightarrow> (None, showFrames (s5\<lparr>frame_id := frame_id s5 + 1\<rparr>) ilog)))"

subsection \<open>Runs of the manager\<close>

text \<open>
  A caller registers factories and adds frames, in any order. When \<open>addFrame\<close> raises,
  the caller is left with the manager as the exception found it and may go on.
\<close>

datatype 'p api_call = AddTaskFactory "int \<Rightarrow> 'p VideoTask" | AddFrame 'p bool

fun call :: "'p VideoTaskManager \<Rightarrow> 'p api_call \<Rightarrow> 'p VideoTaskManager" where
  "call s (AddTaskFactory task_factory) = addTaskFactory s task_factory"
| "call s (AddFrame frame ilog) = snd (addFrame s frame ilog)"

definition run :: "'p VideoTaskManager \<Rightarrow> 'p api_call list \<Rightarrow> 'p VideoTaskManager" where
  "run s calls = foldl call s calls"

subsection \<open>Auxiliary notions\<close>

text \<open>The attributes that no evaluation of a task and no scan writes.\<close>

definition same_control :: "'p VideoTaskManager \<Rightarrow> 'p VideoTaskManager \<Rightarrow> bool" where
  "same_control s s' \<longleftrightarrow>
     debug_level s' = debug_level s \<and> frame_id s' = frame_id s \<and>
     task_factories s' = task_factories s \<and>
     buffer_size s' = buffer_size s \<and> frame_list s' = frame_list s \<and>
     show_flag s' = show_flag s \<and> sink_calls s' = sink_calls s"

text \<open>The sink calls of one release (lines 313 to 316).\<close>

definition release_calls :: "bool \<Rightarrow> bool \<Rightarrow> 'p VideoDataItem \<Rightarrow> 'p sink_call list" where
  "release_calls shw ilog frame_data =
     (if shw then [Show (data frame_data)] else []) @
     (if ilog then [Ilog (data frame_data)] else [])"

text \<open>The loop of \<open>_runTasks\<close> with a bound on the number of scans; \<open>None\<close>: bound reached.\<close>

fun runTasks_fuel ::
  "nat \<Rightarrow> 'p VideoTaskManager \<Rightarrow> (error option \<times> 'p VideoTaskManager) option" where
  "runTasks_fuel 0 s = None"
| "runTasks_fuel (Suc n) s =
     (case filter_evaluateTask (task_list s) s of
        (Inl e, s1) \<Rightarrow> Some (Some e, s1)
      | (Inr kept, s1) \<Rightarrow>
          (if length (task_list s) = length kept then Some (None, s1\<lparr>task_list := kept\<rparr>)
           else runTasks_fuel n (s1\<lparr>task_list := kept\<rparr>)))"

text \<open>
  \<open>scans s sc\<close>: the loop of \<open>_runTasks\<close>, entered with the manager \<open>s\<close>, begins a scan
  with the manager \<open>sc\<close>.
\<close>

inductive scans :: "'p VideoTaskManager \<Rightarrow> 'p VideoTaskManager \<Rightarrow> bool" where
  first: "scans s s"
| later: "filter_evaluateTask (task_list s) s = (Inr kept, s1) \<Longrightarrow>
          length (task_list s) \<noteq> length kept \<Longrightarrow>
          scans (s1\<lparr>task_list := kept\<rparr>) sc \<Longrightarrow> scans s sc"

code_pred (modes: i \<Rightarrow> o \<Rightarrow> bool) scans .

text \<open>The frames a caller hands to \<open>addFrame\<close>, in the order of the calls.\<close>

fun frames_of :: "'p api_call list \<Rightarrow> 'p list" where
  "frames_of [] = []"
| "frames_of (AddTaskFactory task_factory # calls) = frames_of calls"
| "frames_of (AddFrame frame ilog # calls) = frame # frames_of calls"

text \<open>The frames that were shown, and the frames that were passed to a log, in order.\<close>

fun shown :: "'p sink_call list \<Rightarrow> 'p list" where
  "shown [] = []"
| "shown (Show frame # calls) = frame # shown calls"
| "shown (Ilog frame # calls) = shown calls"

fun logged :: "'p sink_call list \<Rightarrow> 'p list" where
  "logged [] = []"
| "logged (Show frame # calls) = logged calls"
| "logged (Ilog frame # calls) = frame # logged calls"

subsection \<open>Example managers\<close>

text \<open>A task that waits for a data item nobody produces.\<close>

definition waiting_task :: "int \<Rightarrow> nat VideoTask" where
  "waiting_task fid =
     \<lparr>task_frame_id = fid, args = [Tup2 ''X'' fid], execute = (\<lambda>args. Items [])\<rparr>"

text \<open>
  A task that asks for its frame, for an optional item and for an item nobody produces.
\<close>

definition blocked_task :: "int \<Rightarrow> nat VideoTask" where
  "blocked_task fid =
     \<lparr>task_frame_id = fid,
      args = [Tup2 ''FRAME'' fid, Tup3 ''AUX'' fid 7 [], Tup2 ''X'' fid],
      execute = (\<lambda>args. Items [])\<rparr>"

text \<open>
  A manager with \<open>debug_level = 2\<close>, \<open>buffer_size = 1\<close> and \<open>show = True\<close>, the factory
  of waiting tasks, and the frames 10 and 11 added with a log.
\<close>

definition ex_s0 :: "nat VideoTaskManager" where
  "ex_s0 = addTaskFactory (VideoTaskManager_init 2 1 True) waiting_task"

definition ex_s1 :: "nat VideoTaskManager" where
  "ex_s1 = snd (addFrame ex_s0 10 True)"

definition ex_s2 :: "nat VideoTaskManager" where
  "ex_s2 = snd (addFrame ex_s1 11 True)"

text \<open>A task without requirements; it produces one item for its frame.\<close>

definition empty_task :: "int \<Rightarrow> nat VideoTask" where
  "empty_task fid =
     \<lparr>task_frame_id = fid, args = [],
      execute = (\<lambda>args. Items [Tup3 ''Y'' fid 5 []])\<rparr>"

text \<open>The first example manager with a second factory, before any frame.\<close>

definition ex_t0 :: "nat VideoTaskManager" where
  "ex_t0 = addTaskFactory ex_s0 empty_task"

text \<open>A task with two optional request keys; it sums what it is given.\<close>

definition optional_task :: "int \<Rightarrow> nat VideoTask" where
  "optional_task fid =
     \<lparr>task_frame_id = fid,
      args = [Tup3 ''FRAME'' fid 99 [], Tup3 ''AUX'' fid 7 []],
      execute = (\<lambda>args. Items [Tup3 ''OUT'' fid (sum_list args) []])\<rparr>"

text \<open>A task whose \<open>execute\<close> returns a pair between two triples.\<close>

definition bad_task :: "int \<Rightarrow> nat VideoTask" where
  "bad_task fid =
     \<lparr>task_frame_id = fid, args = [Tup2 ''FRAME'' fid],
      execute = (\<lambda>args. Items [Tup3 ''Y'' fid 1 [], Tup2 ''Z'' fid, Tup3 ''W'' fid 2 []])\<rparr>"

text \<open>A task whose \<open>execute\<close> returns something \<open>len()\<close> refuses.\<close>

definition nolen_task :: "int \<Rightarrow> nat VideoTask" where
  "nolen_task fid =
     \<lparr>task_frame_id = fid, args = [Tup2 ''FRAME'' fid], execute = (\<lambda>args. NoLen)\<rparr>"

text \<open>Managers with these tasks, before any frame.\<close>

definition ex_b0 :: "nat VideoTaskManager" where
  "ex_b0 = addTaskFactory (addTaskFactory (VideoTaskManager_init 2 1 True) waiting_task) bad_task"

definition ex_n0 :: "nat VideoTaskManager" where
  "ex_n0 = addTaskFactory (VideoTaskManager_init 2 1 True) nolen_task"

text \<open>
  The example manager in its third \<open>addFrame\<close> (frame 12, with a log), between line 178
  and the call of \<open>showFrames\<close>, and after the call.
\<close>

definition ex_pre3 :: "nat VideoTaskManager" where
  "ex_pre3 = (snd (cleanUp (snd (runTasks (ingest ex_s2 12)))))\<lparr>frame_id := 3\<rparr>"

definition ex_s3 :: "nat VideoTaskManager" where
  "ex_s3 = snd (addFrame ex_s2 12 True)"

text \<open>
  A caller that adds a frame without a log, then registers the factory of waiting tasks,
  then adds a frame with a log.
\<close>

definition ex_calls :: "nat api_call list" where
  "ex_calls = [AddFrame 10 False, AddTaskFactory waiting_task, AddFrame 11 True]"

section \<open>Properties\<close>

subsection \<open>Basic facts\<close>

lemma len_eq_3: "len data_item = 3 \<longleftrightarrow> (\<exists>ty fid d. data_item = Tup3 ty fid d [])"
  by (cases data_item) auto

lemma same_control_refl: "same_control s s"
  by (simp add: same_control_def)

lemma same_control_trans: "same_control s s1 \<Longrightarrow> same_control s1 s2 \<Longrightarrow> same_control s s2"
  by (simp add: same_control_def)

lemma store_results_control:
  "store_results result s = (r, s') \<Longrightarrow> same_control s s' \<and> task_list s' = task_list s"
proof (induction result s rule: store_results.induct)
  case (2 ty fid d result s)
  then show ?case
    by (auto simp: VideoDataItem_init_def cache_put_def same_control_def)
qed (auto simp: same_control_def)

lemma evaluateTask_control:
  "evaluateTask s task = (r, s') \<Longrightarrow> same_control s s' \<and> task_list s' = task_list s"
  by (auto simp: evaluateTask_def Let_def same_control_def
      split: if_splits option.splits execute_result.splits prod.splits
      dest!: store_results_control)

lemma filter_evaluateTask_control:
  "filter_evaluateTask tasks s = (r, s') \<Longrightarrow> same_control s s' \<and> task_list s' = task_list s"
proof (induction tasks arbitrary: s r s')
  case Nil
  then show ?case by (simp add: same_control_refl)
next
  case (Cons task tasks)
  then show ?case
    by (fastforce split: prod.splits sum.splits
        dest!: evaluateTask_control intro: same_control_trans same_control_refl)
qed

text \<open>What a task that is kept looks like.\<close>

lemma fetch_None_iff:
  "fetch cache data_request = None \<longleftrightarrow>
     (\<exists>key \<in> set data_request. lookup_key cache key = None \<and> len key \<le> 2)"
proof (induction data_request)
  case Nil
  then show ?case by simp
next
  case (Cons key data_request)
  show ?case
  proof (cases key)
    case (Tup3 ty fid d ds)
    with Cons show ?thesis by (auto split: option.splits)
  qed (use Cons in \<open>auto split: option.splits\<close>)
qed

lemma evaluateTask_keep:
  "evaluateTask s task = (Inr True, s') \<longleftrightarrow>
     s' = s \<and> \<not> frame_id s - getFrameId task > buffer_size s \<and>
     fetch (data_cache s) (required task) = None"
  by (auto simp: evaluateTask_def Let_def
      split: if_splits option.splits execute_result.splits prod.splits)

lemma filter_evaluateTask_kept:
  "filter_evaluateTask tasks s = (Inr kept, s') \<Longrightarrow> task \<in> set kept \<Longrightarrow>
     task \<in> set tasks \<and> \<not> frame_id s - getFrameId task > buffer_size s \<and>
     (\<exists>key \<in> set (required task). len key \<le> 2)"
proof (induction tasks arbitrary: s kept s')
  case Nil
  then show ?case by simp
next
  case (Cons t tasks)
  from Cons.prems(1) obtain keep s1 kept1 where
    ev: "evaluateTask s t = (Inr keep, s1)" and
    rest: "filter_evaluateTask tasks s1 = (Inr kept1, s')" and
    kept: "kept = (if keep then t # kept1 else kept1)"
    by (auto split: prod.splits sum.splits)
  from ev have ctl: "frame_id s1 = frame_id s" "buffer_size s1 = buffer_size s"
    using evaluateTask_control [of s t "Inr keep" s1] by (simp_all add: same_control_def)
  show ?case
  proof (cases "task \<in> set kept1")
    case True
    with Cons.IH [OF rest] ctl show ?thesis by auto
  next
    case False
    with Cons.prems(2) kept have "keep" "task = t"
      by (auto split: if_splits)
    with ev show ?thesis
      by (auto simp: evaluateTask_keep fetch_None_iff)
  qed
qed

lemma filter_evaluateTask_length:
  "filter_evaluateTask tasks s = (Inr kept, s') \<Longrightarrow> length kept \<le> length tasks"
proof (induction tasks arbitrary: s kept s')
  case Nil
  then show ?case by simp
next
  case (Cons task tasks)
  then show ?case
    by (fastforce split: prod.splits sum.splits if_splits)
qed

lemma runTasks_control: "runTasks s = (r, s') \<Longrightarrow> same_control s s'"
proof (induction s arbitrary: r s' rule: runTasks.induct)
  case (1 s)
  show ?case
  proof (cases "filter_evaluateTask (task_list s) s")
    case (Pair x s1)
    note scan = this
    from filter_evaluateTask_control [OF scan] have c1: "same_control s s1" by simp
    show ?thesis
    proof (cases x)
      case (Inl e)
      with scan "1.prems" c1 show ?thesis
        by (simp add: runTasks.simps [of s])
    next
      case (Inr kept)
      show ?thesis
      proof (cases "length (task_list s) = length kept")
        case True
        with scan Inr "1.prems" c1 show ?thesis
          by (auto simp: runTasks.simps [of s] same_control_def)
      next
        case False
        with scan Inr "1.prems" have "runTasks (s1\<lparr>task_list := kept\<rparr>) = (r, s')"
          by (simp add: runTasks.simps [of s])
        from "1.IH" [OF scan [symmetric] Inr False this] c1 show ?thesis
          by (simp add: same_control_def)
      qed
    qed
  qed
qed

lemma runTasks_kept:
  "runTasks s = (None, s') \<Longrightarrow> task \<in> set (task_list s') \<Longrightarrow>
     task \<in> set (task_list s) \<and> \<not> frame_id s - getFrameId task > buffer_size s \<and>
     (\<exists>key \<in> set (required task). len key \<le> 2)"
proof (induction s arbitrary: s' rule: runTasks.induct)
  case (1 s)
  show ?case
  proof (cases "filter_evaluateTask (task_list s) s")
    case (Pair x s1)
    note scan = this
    from filter_evaluateTask_control [OF scan] have c1: "same_control s s1" by simp
    show ?thesis
    proof (cases x)
      case (Inl e)
      with scan "1.prems" show ?thesis
        by (simp add: runTasks.simps [of s])
    next
      case (Inr kept)
      note k = filter_evaluateTask_kept [OF scan [unfolded Inr]]
      show ?thesis
      proof (cases "length (task_list s) = length kept")
        case True
        with scan Inr "1.prems" have "s' = s1\<lparr>task_list := kept\<rparr>"
          by (simp add: runTasks.simps [of s])
        with "1.prems"(2) k show ?thesis by simp
      next
        case False
        with scan Inr "1.prems" have "runTasks (s1\<lparr>task_list := kept\<rparr>) = (None, s')"
          by (simp add: runTasks.simps [of s])
        from "1.IH" [OF scan [symmetric] Inr False this "1.prems"(2)] k c1 show ?thesis
          by (auto simp: same_control_def)
      qed
    qed
  qed
qed

lemma fold_count:
  "fold (\<lambda>task count. if getFrameId task = fid then count + 1 else count) tasks (n::nat) =
     n + length (filter (\<lambda>task. getFrameId task = fid) tasks)"
  by (induction tasks arbitrary: n) auto

lemma remainingTasksForFrame_eq:
  "remainingTasksForFrame s fid = length (filter (\<lambda>task. getFrameId task = fid) (task_list s))"
  by (simp add: remainingTasksForFrame_def fold_count)

lemma remainingTasksForFrame_0:
  "remainingTasksForFrame s fid = 0 \<longleftrightarrow> (\<forall>task \<in> set (task_list s). getFrameId task \<noteq> fid)"
  by (auto simp: remainingTasksForFrame_eq filter_empty_conv)

lemma cleanUp_loop_control:
  "cleanUp_loop data_keys s = (r, s') \<Longrightarrow>
     same_control s s' \<and> task_list s' = task_list s \<and>
     touched s' = touched s \<and> next_cell s' = next_cell s"
proof (induction data_keys arbitrary: s)
  case Nil
  then show ?case by (simp add: same_control_def)
next
  case (Cons key data_keys)
  then show ?case
    by (fastforce simp: same_control_def split: option.splits if_splits)
qed

lemma cleanUp_loop_cache:
  "cleanUp_loop data_keys s = (None, s') \<Longrightarrow> map_of (data_cache s') key = Some item \<Longrightarrow>
     map_of (data_cache s) key = Some item \<and>
     (key \<in> set data_keys \<longrightarrow> \<not> data_frame_id item < frame_id s - buffer_size s)"
proof (induction data_keys arbitrary: s)
  case Nil
  then show ?case by simp
next
  case (Cons k data_keys)
  from Cons.prems(1) obtain data_item where look: "map_of (data_cache s) k = Some data_item"
    by (auto split: option.splits)
  show ?case
  proof (cases "data_frame_id data_item < frame_id s - buffer_size s")
    case True
    define s1 where "s1 = s\<lparr> printed := printed s @
                     (if debug_level s \<ge> 2 \<and> getTouched (touched s) data_item = 0
                      then [DataNeverUsed (data_type data_item) (data_frame_id data_item)]
                      else []),
                   data_cache := AList.delete k (data_cache s) \<rparr>"
    from Cons.prems(1) look True have "cleanUp_loop data_keys s1 = (None, s')"
      by (simp add: s1_def)
    from Cons.IH [OF this Cons.prems(2)]
    have a: "map_of (AList.delete k (data_cache s)) key = Some item"
      and b: "key \<in> set data_keys \<longrightarrow> \<not> data_frame_id item < frame_id s - buffer_size s"
      by (simp_all add: s1_def)
    from a have "key \<noteq> k" "map_of (data_cache s) key = Some item"
      by (auto simp: delete_conv' split: if_splits)
    with b show ?thesis by simp
  next
    case False
    with Cons.prems(1) look have "cleanUp_loop data_keys s = (None, s')"
      by simp
    from Cons.IH [OF this Cons.prems(2)] look False show ?thesis
      by auto
  qed
qed

lemma cleanUp_cache:
  assumes "cleanUp s = (None, s')" and "map_of (data_cache s') key = Some item"
  shows "map_of (data_cache s) key = Some item"
    and "\<not> data_frame_id item < frame_id s - buffer_size s"
proof -
  from assms have a: "map_of (data_cache s) key = Some item \<and>
     (key \<in> set (map fst (data_cache s)) \<longrightarrow> \<not> data_frame_id item < frame_id s - buffer_size s)"
    unfolding cleanUp_def by (rule cleanUp_loop_cache)
  then show "map_of (data_cache s) key = Some item" by simp
  then have "(key, item) \<in> set (data_cache s)" by (rule map_of_SomeD)
  then have "key \<in> set (map fst (data_cache s))" by force
  with a show "\<not> data_frame_id item < frame_id s - buffer_size s" by simp
qed

lemma cleanUp_control:
  "cleanUp s = (r, s') \<Longrightarrow>
     same_control s s' \<and> task_list s' = task_list s \<and>
     touched s' = touched s \<and> next_cell s' = next_cell s"
  unfolding cleanUp_def by (rule cleanUp_loop_control)

text \<open>What \<open>showFrames\<close> does: it releases a prefix of the queue.\<close>

lemma showFrames_fields:
  "debug_level (showFrames s ilog) = debug_level s \<and>
   frame_id (showFrames s ilog) = frame_id s \<and>
   task_list (showFrames s ilog) = task_list s \<and>
   task_factories (showFrames s ilog) = task_factories s \<and>
   data_cache (showFrames s ilog) = data_cache s \<and>
   buffer_size (showFrames s ilog) = buffer_size s \<and>
   show_flag (showFrames s ilog) = show_flag s \<and>
   touched (showFrames s ilog) = touched s \<and>
   next_cell (showFrames s ilog) = next_cell s \<and>
   printed (showFrames s ilog) = printed s"
proof (induction s ilog rule: showFrames.induct)
  case (1 s ilog)
  show ?case
  proof (cases "frame_list s")
    case Nil
    then show ?thesis by (simp add: showFrames.simps [of s])
  next
    case (Cons frame_data rest)
    show ?thesis
    proof (cases "remainingTasksForFrame s (data_frame_id frame_data) = 0")
      case True
      with Cons "1.IH" [OF Cons True] show ?thesis
        by (simp add: showFrames.simps [of s])
    next
      case False
      with Cons show ?thesis by (simp add: showFrames.simps [of s])
    qed
  qed
qed

lemma showFrames_released:
  "\<exists>rel. frame_list s = rel @ frame_list (showFrames s ilog) \<and>
     sink_calls (showFrames s ilog) =
       sink_calls s @ concat (map (release_calls (show_flag s) ilog) rel) \<and>
     (\<forall>frame_data \<in> set rel. \<forall>task \<in> set (task_list s).
        getFrameId task \<noteq> data_frame_id frame_data) \<and>
     (\<forall>frame_data rest. frame_list (showFrames s ilog) = frame_data # rest \<longrightarrow>
        (\<exists>task \<in> set (task_list s). getFrameId task = data_frame_id frame_data))"
proof (induction s ilog rule: showFrames.induct)
  case (1 s ilog)
  show ?case
  proof (cases "frame_list s")
    case Nil
    then have "showFrames s ilog = s" by (simp add: showFrames.simps [of s])
    with Nil show ?thesis by simp
  next
    case (Cons frame_data rest)
    show ?thesis
    proof (cases "remainingTasksForFrame s (data_frame_id frame_data) = 0")
      case True
      define s1 where "s1 = s\<lparr> sink_calls := sink_calls s @
                     (if show_flag s then [Show (data frame_data)] else []) @
                     (if ilog then [Ilog (data frame_data)] else []),
                   frame_list := rest \<rparr>"
      from Cons True have eq: "showFrames s ilog = showFrames s1 ilog"
        by (simp add: showFrames.simps [of s] s1_def)
      from "1.IH" [OF Cons True, folded s1_def] obtain rel where
        r1: "frame_list s1 = rel @ frame_list (showFrames s1 ilog)" and
        r2: "sink_calls (showFrames s1 ilog) =
               sink_calls s1 @ concat (map (release_calls (show_flag s1) ilog) rel)" and
        r3: "\<forall>frame_data \<in> set rel. \<forall>task \<in> set (task_list s1).
               getFrameId task \<noteq> data_frame_id frame_data" and
        r4: "\<forall>frame_data rest. frame_list (showFrames s1 ilog) = frame_data # rest \<longrightarrow>
               (\<exists>task \<in> set (task_list s1). getFrameId task = data_frame_id frame_data)"
        by blast
      have f: "frame_list s1 = rest" "task_list s1 = task_list s" "show_flag s1 = show_flag s"
        "sink_calls s1 = sink_calls s @ release_calls (show_flag s) ilog frame_data"
        by (simp_all add: s1_def release_calls_def)
      from True have none: "\<forall>task \<in> set (task_list s). getFrameId task \<noteq> data_frame_id frame_data"
        by (simp add: remainingTasksForFrame_0)
      have "frame_list s = (frame_data # rel) @ frame_list (showFrames s ilog)"
        using Cons r1 f eq by simp
      moreover have "sink_calls (showFrames s ilog) =
          sink_calls s @ concat (map (release_calls (show_flag s) ilog) (frame_data # rel))"
        using r2 f eq by simp
      moreover have "\<forall>fd \<in> set (frame_data # rel). \<forall>task \<in> set (task_list s).
          getFrameId task \<noteq> data_frame_id fd"
        using r3 f none by simp
      moreover have "\<forall>fd rest. frame_list (showFrames s ilog) = fd # rest \<longrightarrow>
          (\<exists>task \<in> set (task_list s). getFrameId task = data_frame_id fd)"
        using r4 f eq by simp
      ultimately show ?thesis by blast
    next
      case False
      with Cons have eq: "showFrames s ilog = s" by (simp add: showFrames.simps [of s])
      from False have "\<exists>task \<in> set (task_list s). getFrameId task = data_frame_id frame_data"
        by (simp add: remainingTasksForFrame_0)
      with Cons eq show ?thesis by simp
    qed
  qed
qed

text \<open>What the first lines of \<open>addFrame\<close> do.\<close>

lemma createTasksForFrame_fold:
  "fold (\<lambda>factory s'. s'\<lparr>task_list := task_list s' @ [factory fid]\<rparr>) factories s =
     s\<lparr>task_list := task_list s @ map (\<lambda>factory. factory fid) factories\<rparr>"
  by (induction factories arbitrary: s) auto

lemma createTasksForFrame_eq:
  "createTasksForFrame s fid =
     s\<lparr>task_list := task_list s @ map (\<lambda>factory. factory fid) (task_factories s)\<rparr>"
  by (simp add: createTasksForFrame_def createTasksForFrame_fold)

lemma ingest_eq:
  "ingest s frame =
     s\<lparr> task_list := task_list s @ map (\<lambda>factory. factory (frame_id s)) (task_factories s),
        data_cache := AList.update (''FRAME'', frame_id s)
           \<lparr>data_type = ''FRAME'', data_frame_id = frame_id s, data = frame,
            cell = Some (next_cell s)\<rparr> (data_cache s),
        frame_list := frame_list s @
           [\<lparr>data_type = ''FRAME'', data_frame_id = frame_id s, data = frame,
             cell = Some (next_cell s)\<rparr>],
        touched := (touched s)(next_cell s := 0),
        next_cell := Suc (next_cell s) \<rparr>"
  by (simp add: ingest_def VideoDataItem_init_def cache_put_def getKey_def
      createTasksForFrame_eq)

subsection \<open>The scans of \<open>_runTasks\<close> are bounded\<close>

lemma runTasks_fuel_enough:
  "length (task_list s) \<le> n \<Longrightarrow> runTasks_fuel (Suc n) s = Some (runTasks s)"
proof (induction n arbitrary: s)
  case 0
  then have e: "task_list s = []" by simp
  then show ?case
    by (simp add: runTasks.simps [of s])
next
  case (Suc n)
  show ?case
  proof (cases "filter_evaluateTask (task_list s) s")
    case (Pair x s1)
    note scan = this
    show ?thesis
    proof (cases x)
      case (Inl e)
      with scan show ?thesis
        by (simp add: runTasks.simps [of s])
    next
      case (Inr kept)
      from filter_evaluateTask_length [OF scan [unfolded Inr]]
      have le: "length kept \<le> length (task_list s)" .
      show ?thesis
      proof (cases "length (task_list s) = length kept")
        case True
        with scan Inr show ?thesis
          by (simp add: runTasks.simps [of s])
      next
        case False
        with le Suc.prems have "length (task_list (s1\<lparr>task_list := kept\<rparr>)) \<le> n"
          by simp
        from Suc.IH [OF this] scan Inr False show ?thesis
          by (simp add: runTasks.simps [of s])
      qed
    qed
  qed
qed

lemma addFrame_normal:
  assumes "addFrame s frame ilog = (None, s')"
  obtains s4 s5 where "runTasks (ingest s frame) = (None, s4)" and "cleanUp s4 = (None, s5)"
    and "s' = showFrames (s5\<lparr>frame_id := frame_id s5 + 1\<rparr>) ilog"
  using assms unfolding addFrame_def
  by (auto split: prod.splits option.splits)

subsection \<open>The example managers, evaluated\<close>

lemmas eval_simps =
  VideoTaskManager_init_def addTaskFactory_def addFrame_def ingest_eq
  runTasks.simps evaluateTask_def getFrameId_def required_def getKey_def
  VideoDataItem_init_def cache_put_def
  cleanUp_def showFrames.simps remainingTasksForFrame_def touch_def getTouched_def
  run_def

lemma no_touch_upd: "(\<lambda>c. 0::nat)(k := 0) = (\<lambda>c. 0)"
  by auto

lemma ex_s1_ok: "fst (addFrame ex_s0 10 True) = None"
  by (simp add: ex_s0_def waiting_task_def eval_simps)

lemma ex_s1_eq:
  "ex_s1 = \<lparr> debug_level = 2, frame_id = 1, task_list = [waiting_task 0],
       task_factories = [waiting_task],
       data_cache = [((''FRAME'', 0),
          \<lparr>data_type = ''FRAME'', data_frame_id = 0, data = 10, cell = Some 0\<rparr>)],
       buffer_size = 1,
       frame_list = [\<lparr>data_type = ''FRAME'', data_frame_id = 0, data = 10, cell = Some 0\<rparr>],
       show_flag = True, touched = (\<lambda>c. 0), next_cell = 1, printed = [], sink_calls = [] \<rparr>"
  by (simp add: ex_s1_def ex_s0_def waiting_task_def eval_simps no_touch_upd)

lemma ex_s2_ok: "fst (addFrame ex_s1 11 True) = None"
  by (simp add: ex_s1_eq waiting_task_def eval_simps)

lemma ex_s2_eq:
  "ex_s2 = \<lparr> debug_level = 2, frame_id = 2, task_list = [waiting_task 0, waiting_task 1],
       task_factories = [waiting_task],
       data_cache = [((''FRAME'', 0),
          \<lparr>data_type = ''FRAME'', data_frame_id = 0, data = 10, cell = Some 0\<rparr>),
          ((''FRAME'', 1),
          \<lparr>data_type = ''FRAME'', data_frame_id = 1, data = 11, cell = Some 1\<rparr>)],
       buffer_size = 1,
       frame_list = [\<lparr>data_type = ''FRAME'', data_frame_id = 0, data = 10, cell = Some 0\<rparr>,
          \<lparr>data_type = ''FRAME'', data_frame_id = 1, data = 11, cell = Some 1\<rparr>],
       show_flag = True, touched = (\<lambda>c. 0), next_cell = 2, printed = [], sink_calls = [] \<rparr>"
  by (simp add: ex_s2_def ex_s1_eq waiting_task_def eval_simps no_touch_upd)

section \<open>The claims\<close>

subsection \<open>C8: an evaluation that keeps the task changes nothing\<close>

text \<open>
  Claim C8. Whenever \<open>_evaluateTask\<close> returns \<open>True\<close> (keep), the manager is exactly as it
  was before the call: no data item was put into the cache and no \<open>_touched\<close> counter
  moved, since the counters are incremented only after the loop over the request keys has
  ended. The call returns keep exactly when the task is within the buffer and one of its
  request keys has length at most 2 and is not in the cache.
\<close>

theorem C8_keep_leaves_manager_unchanged:
  "(evaluateTask s task = (Inr True, s') \<longrightarrow>
      s' = s \<and>
      (\<exists>key \<in> set (required task). lookup_key (data_cache s) key = None \<and> len key \<le> 2)) \<and>
   (\<not> frame_id s - getFrameId task > buffer_size s \<longrightarrow>
      (\<exists>key \<in> set (required task). lookup_key (data_cache s) key = None \<and> len key \<le> 2) \<longrightarrow>
      evaluateTask s task = (Inr True, s))"
  by (auto simp: evaluateTask_keep fetch_None_iff)

text \<open>
  On the example manager after one frame, the blocked task finds its frame in the cache
  and takes the default for the optional item before it meets the missing key.
\<close>

theorem C8_witness:
  "\<not> frame_id ex_s1 - getFrameId (blocked_task 0) > buffer_size ex_s1 \<and>
   lookup_key (data_cache ex_s1) (Tup2 ''FRAME'' 0) \<noteq> None \<and>
   lookup_key (data_cache ex_s1) (Tup2 ''X'' 0) = None \<and>
   evaluateTask ex_s1 (blocked_task 0) = (Inr True, ex_s1)"
proof -
  have a: "\<not> frame_id ex_s1 - getFrameId (blocked_task 0) > buffer_size ex_s1"
    by (simp add: ex_s1_eq blocked_task_def getFrameId_def)
  have b: "\<exists>key \<in> set (required (blocked_task 0)).
             lookup_key (data_cache ex_s1) key = None \<and> len key \<le> 2"
    by (simp add: ex_s1_eq blocked_task_def required_def)
  have c: "lookup_key (data_cache ex_s1) (Tup2 ''FRAME'' 0) \<noteq> None"
    "lookup_key (data_cache ex_s1) (Tup2 ''X'' 0) = None"
    by (simp_all add: ex_s1_eq)
  from C8_keep_leaves_manager_unchanged [of ex_s1 "blocked_task 0" ex_s1] a b c
  show ?thesis by blast
qed

subsection \<open>What an \<open>addFrame\<close> that returns leaves pending\<close>

lemma addFrame_tasks:
  assumes "addFrame s frame ilog = (None, s')" and "task \<in> set (task_list s')"
  shows "\<not> frame_id s - getFrameId task > buffer_size s"
    and "\<exists>key \<in> set (required task). len key \<le> 2"
    and "frame_id s' = frame_id s + 1" and "buffer_size s' = buffer_size s"
proof -
  from assms(1) obtain s4 s5 where
    r: "runTasks (ingest s frame) = (None, s4)" and c: "cleanUp s4 = (None, s5)" and
    s': "s' = showFrames (s5\<lparr>frame_id := frame_id s5 + 1\<rparr>) ilog"
    by (rule addFrame_normal)
  from c have c5: "same_control s4 s5" "task_list s5 = task_list s4"
    using cleanUp_control [of s4 None s5] by simp_all
  from r have c4: "same_control (ingest s frame) s4" by (rule runTasks_control)
  have i: "frame_id (ingest s frame) = frame_id s" "buffer_size (ingest s frame) = buffer_size s"
    by (simp_all add: ingest_eq)
  from s' c5 have "task_list s' = task_list s4"
    by (simp add: showFrames_fields)
  with assms(2) have "task \<in> set (task_list s4)" by simp
  from runTasks_kept [OF r this] i
  show "\<not> frame_id s - getFrameId task > buffer_size s"
    and "\<exists>key \<in> set (required task). len key \<le> 2"
    by simp_all
  from s' c5 c4 i show "frame_id s' = frame_id s + 1" "buffer_size s' = buffer_size s"
    by (simp_all add: showFrames_fields same_control_def)
qed

lemma ex_t0_ingest:
  "ingest ex_t0 10 = \<lparr> debug_level = 2, frame_id = 0,
       task_list = [waiting_task 0, empty_task 0],
       task_factories = [waiting_task, empty_task],
       data_cache = [((''FRAME'', 0),
          \<lparr>data_type = ''FRAME'', data_frame_id = 0, data = 10, cell = Some 0\<rparr>)],
       buffer_size = 1,
       frame_list = [\<lparr>data_type = ''FRAME'', data_frame_id = 0, data = 10, cell = Some 0\<rparr>],
       show_flag = True, touched = (\<lambda>c. 0), next_cell = 1, printed = [], sink_calls = [] \<rparr>"
  by (simp add: ex_t0_def ex_s0_def eval_simps no_touch_upd)

lemma ex_t0_scan:
  "fst (filter_evaluateTask (task_list (ingest ex_t0 10)) (ingest ex_t0 10)) =
     Inr [waiting_task 0]"
  unfolding ex_t0_ingest
  by (simp add: waiting_task_def empty_task_def evaluateTask_def getFrameId_def required_def
      VideoDataItem_init_def cache_put_def touch_def)

lemma ex_t0_addFrame:
  "fst (addFrame ex_t0 10 True) = None"
  "task_list (snd (addFrame ex_t0 10 True)) = [waiting_task 0]"
  unfolding addFrame_def ex_t0_ingest
  by (simp_all add: waiting_task_def empty_task_def
      runTasks.simps evaluateTask_def getFrameId_def required_def getKey_def
      VideoDataItem_init_def cache_put_def cleanUp_def showFrames.simps
      remainingTasksForFrame_def touch_def getTouched_def)

subsection \<open>C7: no task without requirements stays pending\<close>

lemma evaluateTask_no_requirements:
  "required task = [] \<Longrightarrow>
     evaluateTask s task =
       (if frame_id s - getFrameId task > buffer_size s then
          (Inr False,
           if debug_level s \<ge> 2
           then s\<lparr>printed := printed s @ [TaskNotExecuted (getFrameId task)]\<rparr> else s)
        else
          (case execute task [] of
             Raises \<Rightarrow> (Inl TaskRaised, s)
           | NoLen \<Rightarrow> (Inl InvalidList, s)
           | Items result \<Rightarrow>
               (case store_results result s of
                  (Some e, s2) \<Rightarrow> (Inl e, s2)
                | (None, s2) \<Rightarrow> (Inr False, s2))))"
  by (simp add: evaluateTask_def)

text \<open>
  Claim C7. After an \<open>addFrame\<close> that returns normally, no task whose \<open>required()\<close> is
  the empty list is in the pending list. More: no scan that completes keeps such a task,
  so the first scan of the call does not. And an evaluation of such a task drops it as
  stale or calls its \<open>execute\<close> without arguments and stores what it returns; it never
  returns keep.
\<close>

theorem C7_no_empty_requirement_stays_pending:
  "(addFrame s frame ilog = (None, s') \<longrightarrow>
      (\<forall>task \<in> set (task_list s'). required task \<noteq> [])) \<and>
   (filter_evaluateTask tasks s0 = (Inr kept, s1) \<longrightarrow>
      (\<forall>task \<in> set kept. required task \<noteq> [])) \<and>
   (required task = [] \<longrightarrow>
      evaluateTask s2 task =
        (if frame_id s2 - getFrameId task > buffer_size s2 then
           (Inr False,
            if debug_level s2 \<ge> 2
            then s2\<lparr>printed := printed s2 @ [TaskNotExecuted (getFrameId task)]\<rparr> else s2)
         else
           (case execute task [] of
              Raises \<Rightarrow> (Inl TaskRaised, s2)
            | NoLen \<Rightarrow> (Inl InvalidList, s2)
            | Items result \<Rightarrow>
                (case store_results result s2 of
                   (Some e, s3) \<Rightarrow> (Inl e, s3)
                 | (None, s3) \<Rightarrow> (Inr False, s3)))))"
proof (intro conjI impI ballI)
  fix task
  assume "addFrame s frame ilog = (None, s')" and "task \<in> set (task_list s')"
  from addFrame_tasks(2) [OF this] show "required task \<noteq> []" by auto
next
  fix task
  assume "filter_evaluateTask tasks s0 = (Inr kept, s1)" and "task \<in> set kept"
  from filter_evaluateTask_kept [OF this] show "required task \<noteq> []" by auto
next
  assume "required task = []"
  then show "evaluateTask s2 task =
        (if frame_id s2 - getFrameId task > buffer_size s2 then
           (Inr False,
            if debug_level s2 \<ge> 2
            then s2\<lparr>printed := printed s2 @ [TaskNotExecuted (getFrameId task)]\<rparr> else s2)
         else
           (case execute task [] of
              Raises \<Rightarrow> (Inl TaskRaised, s2)
            | NoLen \<Rightarrow> (Inl InvalidList, s2)
            | Items result \<Rightarrow>
                (case store_results result s2 of
                   (Some e, s3) \<Rightarrow> (Inl e, s3)
                 | (None, s3) \<Rightarrow> (Inr False, s3))))"
    by (rule evaluateTask_no_requirements)
qed

text \<open>
  The manager with a waiting task and a task without requirements: the first frame leaves
  the waiting task only, and the other task has put its item into the cache.
\<close>

theorem C7_witness:
  "addFrame ex_t0 10 True = (None, snd (addFrame ex_t0 10 True)) \<and>
   filter_evaluateTask [waiting_task 0, empty_task 0] (ingest ex_t0 10) =
     (Inr [waiting_task 0],
      snd (filter_evaluateTask [waiting_task 0, empty_task 0] (ingest ex_t0 10))) \<and>
   task_list (snd (addFrame ex_t0 10 True)) = [waiting_task 0] \<and>
   required (empty_task 0) = [] \<and>
   required (waiting_task 0) \<noteq> [] \<and>
   execute (empty_task 0) [] = Items [Tup3 ''Y'' 0 5 []] \<and>
   fst (evaluateTask (ingest ex_t0 10) (empty_task 0)) = Inr False \<and>
   map_of (data_cache (snd (evaluateTask (ingest ex_t0 10) (empty_task 0)))) (''Y'', 0) =
     Some \<lparr>data_type = ''Y'', data_frame_id = 0, data = 5, cell = Some 1\<rparr>"
proof -
  have a: "addFrame ex_t0 10 True = (None, snd (addFrame ex_t0 10 True))"
    using ex_t0_addFrame(1) by (simp add: prod_eq_iff)
  have b: "filter_evaluateTask [waiting_task 0, empty_task 0] (ingest ex_t0 10) =
     (Inr [waiting_task 0],
      snd (filter_evaluateTask [waiting_task 0, empty_task 0] (ingest ex_t0 10)))"
    using ex_t0_scan by (simp add: prod_eq_iff ex_t0_ingest)
  have c: "required (empty_task 0) = []" "required (waiting_task 0) \<noteq> []"
    "execute (empty_task 0) [] = Items [Tup3 ''Y'' 0 5 []]"
    "getFrameId (empty_task 0) = 0"
    by (simp_all add: required_def getFrameId_def empty_task_def waiting_task_def)
  from C7_no_empty_requirement_stays_pending
    [where s = ex_t0 and frame = 10 and ilog = True and s' = "snd (addFrame ex_t0 10 True)"
      and tasks = "[waiting_task 0, empty_task 0]" and ?s0.0 = "ingest ex_t0 10"
      and kept = "[waiting_task 0]"
      and ?s1.0 = "snd (filter_evaluateTask [waiting_task 0, empty_task 0] (ingest ex_t0 10))"
      and task = "empty_task 0" and ?s2.0 = "ingest ex_t0 10"]
    a b c ex_t0_addFrame(2)
  show ?thesis
    by (simp add: ex_t0_ingest VideoDataItem_init_def cache_put_def)
qed

subsection \<open>C5: the loop of \<open>_runTasks\<close> ends\<close>

text \<open>
  Claim C5. For every manager the loop of \<open>_runTasks\<close> ends: run with a bound of one scan
  more than there are pending tasks, the loop never reaches the bound and gives the result
  of \<open>runTasks\<close>. A scan that completes never keeps more tasks than it was given; when it
  keeps as many, the loop stops after it; when it keeps fewer, the loop goes on with a
  strictly shorter list.
\<close>

theorem C5_runTasks_terminates:
  "runTasks_fuel (Suc (length (task_list s))) s = Some (runTasks s) \<and>
   (filter_evaluateTask (task_list s) s = (Inr kept, s1) \<longrightarrow>
      length kept \<le> length (task_list s) \<and>
      (length kept = length (task_list s) \<longrightarrow>
         runTasks s = (None, s1\<lparr>task_list := kept\<rparr>)) \<and>
      (length kept < length (task_list s) \<longrightarrow>
         runTasks s = runTasks (s1\<lparr>task_list := kept\<rparr>) \<and>
         length (task_list (s1\<lparr>task_list := kept\<rparr>)) < length (task_list s)))"
proof (intro conjI impI)
  show "runTasks_fuel (Suc (length (task_list s))) s = Some (runTasks s)"
    by (rule runTasks_fuel_enough) simp
next
  assume scan: "filter_evaluateTask (task_list s) s = (Inr kept, s1)"
  then show "length kept \<le> length (task_list s)"
    by (rule filter_evaluateTask_length)
  {
    assume "length kept = length (task_list s)"
    with scan show "runTasks s = (None, s1\<lparr>task_list := kept\<rparr>)"
      by (simp add: runTasks.simps [of s])
  }
  {
    assume lt: "length kept < length (task_list s)"
    with scan show "runTasks s = runTasks (s1\<lparr>task_list := kept\<rparr>)"
      by (simp add: runTasks.simps [of s])
    from lt show "length (task_list (s1\<lparr>task_list := kept\<rparr>)) < length (task_list s)"
      by simp
  }
qed

text \<open>
  On the manager with two pending tasks the first scan keeps one, so the loop goes on
  with one task; three scans are enough.
\<close>

theorem C5_witness:
  "filter_evaluateTask (task_list (ingest ex_t0 10)) (ingest ex_t0 10) =
     (Inr [waiting_task 0],
      snd (filter_evaluateTask (task_list (ingest ex_t0 10)) (ingest ex_t0 10))) \<and>
   length [waiting_task 0] < length (task_list (ingest ex_t0 10)) \<and>
   runTasks_fuel 3 (ingest ex_t0 10) = Some (runTasks (ingest ex_t0 10)) \<and>
   runTasks (ingest ex_t0 10) =
     runTasks ((snd (filter_evaluateTask (task_list (ingest ex_t0 10)) (ingest ex_t0 10)))
       \<lparr>task_list := [waiting_task 0]\<rparr>)"
proof -
  have a: "filter_evaluateTask (task_list (ingest ex_t0 10)) (ingest ex_t0 10) =
     (Inr [waiting_task 0],
      snd (filter_evaluateTask (task_list (ingest ex_t0 10)) (ingest ex_t0 10)))"
    using ex_t0_scan by (simp add: prod_eq_iff)
  have b: "length (task_list (ingest ex_t0 10)) = 2"
    by (simp add: ex_t0_ingest)
  from C5_runTasks_terminates
    [of "ingest ex_t0 10" "[waiting_task 0]"
      "snd (filter_evaluateTask (task_list (ingest ex_t0 10)) (ingest ex_t0 10))"] a b
  show ?thesis by (simp add: numeral_3_eq_3)
qed

subsection \<open>C3: how far a pending task may lag\<close>

text \<open>
  Claim C3 says that after each \<open>addFrame\<close> every pending task has
  \<open>frame_id - task.frame_id <= buffer_size\<close>. The staleness test is made in
  \<open>_runTasks\<close>, before line 178 increments \<open>frame_id\<close>, so the bound that holds on return
  is one larger. On the example manager (\<open>buffer_size = 1\<close>) the task of frame 0 is still
  pending after the second frame, when \<open>frame_id\<close> is 2.
\<close>

theorem C3_counterexample:
  "fst (addFrame ex_s1 11 True) = None \<and>
   ex_s2 = snd (addFrame ex_s1 11 True) \<and>
   waiting_task 0 \<in> set (task_list ex_s2) \<and>
   \<not> frame_id ex_s2 - getFrameId (waiting_task 0) \<le> buffer_size ex_s2"
  using ex_s2_ok by (simp add: ex_s2_eq ex_s2_def [symmetric] getFrameId_def waiting_task_def)

text \<open>
  Claim C3, amended. After an \<open>addFrame\<close> that returns normally every pending task has
  \<open>frame_id - task.frame_id <= buffer_size + 1\<close>. A task that is evaluated with
  \<open>frame_id - task.frame_id > buffer_size\<close> is dropped, not kept, and nothing else
  happens; the warning line is printed only when \<open>debug_level >= 2\<close>.
\<close>

theorem C3_amended:
  "(addFrame s frame ilog = (None, s') \<longrightarrow>
      (\<forall>task \<in> set (task_list s').
         frame_id s' - getFrameId task \<le> buffer_size s' + 1)) \<and>
   (frame_id s0 - getFrameId task > buffer_size s0 \<longrightarrow>
      evaluateTask s0 task =
        (Inr False,
         if debug_level s0 \<ge> 2
         then s0\<lparr>printed := printed s0 @ [TaskNotExecuted (getFrameId task)]\<rparr> else s0))"
proof (intro conjI impI ballI)
  fix t
  assume a: "addFrame s frame ilog = (None, s')" and t: "t \<in> set (task_list s')"
  from addFrame_tasks(1,3,4) [OF a t]
  show "frame_id s' - getFrameId t \<le> buffer_size s' + 1" by simp
next
  assume "frame_id s0 - getFrameId task > buffer_size s0"
  then show "evaluateTask s0 task =
        (Inr False,
         if debug_level s0 \<ge> 2
         then s0\<lparr>printed := printed s0 @ [TaskNotExecuted (getFrameId task)]\<rparr> else s0)"
    by (simp add: evaluateTask_def)
qed

text \<open>
  The second frame of the example manager, and the task of frame 0 evaluated on the
  manager it leaves.
\<close>

theorem C3_witness:
  "addFrame ex_s1 11 True = (None, ex_s2) \<and>
   task_list ex_s2 = [waiting_task 0, waiting_task 1] \<and>
   frame_id ex_s2 - getFrameId (waiting_task 0) \<le> buffer_size ex_s2 + 1 \<and>
   frame_id ex_s2 - getFrameId (waiting_task 1) \<le> buffer_size ex_s2 + 1 \<and>
   frame_id ex_s2 - getFrameId (waiting_task 0) > buffer_size ex_s2 \<and>
   evaluateTask ex_s2 (waiting_task 0) =
     (Inr False, ex_s2\<lparr>printed := printed ex_s2 @ [TaskNotExecuted 0]\<rparr>)"
proof -
  have a: "addFrame ex_s1 11 True = (None, ex_s2)"
    using ex_s2_ok by (simp add: prod_eq_iff ex_s2_def)
  have b: "frame_id ex_s2 - getFrameId (waiting_task 0) > buffer_size ex_s2"
    "debug_level ex_s2 \<ge> 2" "getFrameId (waiting_task 0) = 0"
    by (simp_all add: ex_s2_eq getFrameId_def waiting_task_def)
  have c: "task_list ex_s2 = [waiting_task 0, waiting_task 1]"
    by (simp add: ex_s2_eq)
  from C3_amended [of ex_s1 11 True ex_s2 ex_s2 "waiting_task 0"] a b c
  show ?thesis by simp
qed

subsection \<open>C2: how old a cached data item may be\<close>

text \<open>
  Claim C2 says that after each \<open>addFrame\<close> every cached item has
  \<open>item.frame_id >= frame_id - buffer_size\<close>. \<open>_cleanUp\<close> runs before line 178
  increments \<open>frame_id\<close>, so an item one frame older survives. On the example manager
  (\<open>buffer_size = 1\<close>) the item of frame 0 is in the cache after the second frame, when
  \<open>frame_id\<close> is 2.
\<close>

theorem C2_counterexample:
  "fst (addFrame ex_s1 11 True) = None \<and>
   ex_s2 = snd (addFrame ex_s1 11 True) \<and>
   map_of (data_cache ex_s2) (''FRAME'', 0) =
     Some \<lparr>data_type = ''FRAME'', data_frame_id = 0, data = 10, cell = Some 0\<rparr> \<and>
   \<not> (0::int) \<ge> frame_id ex_s2 - buffer_size ex_s2"
  using ex_s2_ok by (simp add: ex_s2_eq ex_s2_def [symmetric])

text \<open>
  Claim C2, amended. After an \<open>addFrame\<close> that returns normally every item in the data
  cache has \<open>item.frame_id >= frame_id - buffer_size - 1\<close>.
\<close>

theorem C2_amended:
  "addFrame s frame ilog = (None, s') \<Longrightarrow> map_of (data_cache s') key = Some item \<Longrightarrow>
     data_frame_id item \<ge> frame_id s' - buffer_size s' - 1"
proof -
  assume a: "addFrame s frame ilog = (None, s')" and m: "map_of (data_cache s') key = Some item"
  from a obtain s4 s5 where
    r: "runTasks (ingest s frame) = (None, s4)" and c: "cleanUp s4 = (None, s5)" and
    s': "s' = showFrames (s5\<lparr>frame_id := frame_id s5 + 1\<rparr>) ilog"
    by (rule addFrame_normal)
  from c have c5: "same_control s4 s5"
    using cleanUp_control [of s4 None s5] by simp
  from s' m have "map_of (data_cache s5) key = Some item"
    by (simp add: showFrames_fields)
  from cleanUp_cache(2) [OF c this]
  have "\<not> data_frame_id item < frame_id s4 - buffer_size s4" .
  moreover from s' c5 have "frame_id s' = frame_id s4 + 1" "buffer_size s' = buffer_size s4"
    by (simp_all add: showFrames_fields same_control_def)
  ultimately show ?thesis by simp
qed

theorem C2_witness:
  "addFrame ex_s1 11 True = (None, ex_s2) \<and>
   map_of (data_cache ex_s2) (''FRAME'', 0) =
     Some \<lparr>data_type = ''FRAME'', data_frame_id = 0, data = 10, cell = Some 0\<rparr> \<and>
   (0::int) \<ge> frame_id ex_s2 - buffer_size ex_s2 - 1"
proof -
  have a: "addFrame ex_s1 11 True = (None, ex_s2)"
    using ex_s2_ok by (simp add: prod_eq_iff ex_s2_def)
  have b: "map_of (data_cache ex_s2) (''FRAME'', 0) =
     Some \<lparr>data_type = ''FRAME'', data_frame_id = 0, data = 10, cell = Some 0\<rparr>"
    by (simp add: ex_s2_eq)
  from C2_amended [OF a b] a b show ?thesis by simp
qed

subsection \<open>Input resolution and the storing of results\<close>

lemma fetch_Some_nth:
  "fetch cache data_request = Some data_items \<Longrightarrow>
     length data_items = length data_request \<and>
     (\<forall>i < length data_request.
        (case lookup_key cache (data_request ! i) of
           Some item \<Rightarrow> data_items ! i = item
         | None \<Rightarrow> default_item (data_request ! i) = Some (data_items ! i)))"
proof (induction data_request arbitrary: data_items)
  case Nil
  then show ?case by simp
next
  case (Cons key data_request)
  from Cons.prems obtain item items where
    items: "fetch cache data_request = Some items" and di: "data_items = item # items" and
    item: "case lookup_key cache key of Some it \<Rightarrow> item = it
           | None \<Rightarrow> default_item key = Some item"
    by (auto split: option.splits)
  from Cons.IH [OF items] have
    len: "length items = length data_request" and
    nth: "\<And>i. i < length data_request \<Longrightarrow>
        (case lookup_key cache (data_request ! i) of
           Some item \<Rightarrow> items ! i = item
         | None \<Rightarrow> default_item (data_request ! i) = Some (items ! i))"
    by simp_all
  show ?case
  proof (intro conjI allI impI)
    show "length data_items = length (key # data_request)"
      using len di by simp
  next
    fix i assume i: "i < length (key # data_request)"
    show "case lookup_key cache ((key # data_request) ! i) of
           Some item \<Rightarrow> data_items ! i = item
         | None \<Rightarrow> default_item ((key # data_request) ! i) = Some (data_items ! i)"
    proof (cases i)
      case 0
      with item di show ?thesis by (auto split: option.splits)
    next
      case (Suc j)
      with i have "j < length data_request" by simp
      from nth [OF this] Suc di show ?thesis by (auto split: option.splits)
    qed
  qed
qed

lemma fetch_Some_iff:
  "(\<exists>data_items. fetch cache data_request = Some data_items) \<longleftrightarrow>
     (\<forall>key \<in> set data_request. lookup_key cache key = None \<longrightarrow> len key > 2)"
proof -
  have "(\<exists>data_items. fetch cache data_request = Some data_items) \<longleftrightarrow>
      fetch cache data_request \<noteq> None" by auto
  also have "\<dots> \<longleftrightarrow> (\<forall>key \<in> set data_request. lookup_key cache key = None \<longrightarrow> len key > 2)"
    by (auto simp: fetch_None_iff not_le)
  finally show ?thesis .
qed

lemma store_results_Tup3:
  "store_results (Tup3 ty fid d [] # result) s =
     store_results result
       (s\<lparr> touched := (touched s)(next_cell s := 0),
           next_cell := Suc (next_cell s),
           data_cache := AList.update (ty, fid)
             \<lparr>data_type = ty, data_frame_id = fid, data = d, cell = Some (next_cell s)\<rparr>
             (data_cache s) \<rparr>)"
  by (simp add: VideoDataItem_init_def cache_put_def)

lemma store_results_bad:
  "len data_item \<noteq> 3 \<Longrightarrow> store_results (data_item # result) s = (Some InvalidItem, s)"
proof (cases data_item)
  case (Tup3 ty fid d ds)
  assume "len data_item \<noteq> 3"
  with Tup3 show ?thesis by (cases ds) simp_all
qed simp_all

lemma store_results_cache:
  "store_results result s = (r, s') \<Longrightarrow> map_of (data_cache s') key = Some item \<Longrightarrow>
     map_of (data_cache s) key = Some item \<or>
     (\<exists>c. cell item = Some c \<and> next_cell s \<le> c \<and>
          Tup3 (fst key) (snd key) (data item) [] \<in> set result)"
proof (induction result arbitrary: s)
  case Nil
  then show ?case by simp
next
  case (Cons x result)
  show ?case
  proof (cases "len x = 3")
    case False
    with Cons.prems show ?thesis by (simp add: store_results_bad)
  next
    case True
    then obtain ty fid d where x: "x = Tup3 ty fid d []"
      by (auto simp: len_eq_3)
    define s1 where "s1 = s\<lparr> touched := (touched s)(next_cell s := 0),
           next_cell := Suc (next_cell s),
           data_cache := AList.update (ty, fid)
             \<lparr>data_type = ty, data_frame_id = fid, data = d, cell = Some (next_cell s)\<rparr>
             (data_cache s) \<rparr>"
    from Cons.prems(1) have "store_results (Tup3 ty fid d [] # result) s = (r, s')"
      unfolding x .
    then have st: "store_results result s1 = (r, s')"
      unfolding store_results_Tup3 s1_def .
    have s1: "next_cell s1 = Suc (next_cell s)"
      "map_of (data_cache s1) = (map_of (data_cache s))((ty, fid) \<mapsto>
          \<lparr>data_type = ty, data_frame_id = fid, data = d, cell = Some (next_cell s)\<rparr>)"
      by (simp_all add: s1_def update_conv')
    from Cons.IH [OF st Cons.prems(2)]
    show ?thesis
    proof
      assume "map_of (data_cache s1) key = Some item"
      then show ?thesis
        using s1 x by (cases "key = (ty, fid)") auto
    next
      assume "\<exists>c. cell item = Some c \<and> next_cell s1 \<le> c \<and>
            Tup3 (fst key) (snd key) (data item) [] \<in> set result"
      then show ?thesis using s1 by auto
    qed
  qed
qed

lemma evaluateTask_cache:
  assumes "evaluateTask s task = (r, s')" and "map_of (data_cache s') key = Some item"
  shows "map_of (data_cache s) key = Some item \<or> (\<exists>c. cell item = Some c \<and> next_cell s \<le> c)"
proof -
  have *: "map_of (data_cache s) key = Some item \<or> (\<exists>c. cell item = Some c \<and> next_cell s \<le> c)"
    if "store_results result (s\<lparr>touched := tc\<rparr>) = (r0, s')" for result tc r0
    using store_results_cache [OF that assms(2)] by auto
  from assms show ?thesis
    unfolding evaluateTask_def Let_def
    by (auto split: if_splits option.splits execute_result.splits prod.splits dest: *)
qed

lemma evaluateTask_execute:
  "\<not> frame_id s - getFrameId task > buffer_size s \<Longrightarrow>
   fetch (data_cache s) (required task) = Some data_items \<Longrightarrow>
   evaluateTask s task =
     (case execute task (map data data_items) of
        Raises \<Rightarrow> (Inl TaskRaised, s\<lparr>touched := fold touch data_items (touched s)\<rparr>)
      | NoLen \<Rightarrow> (Inl InvalidList, s\<lparr>touched := fold touch data_items (touched s)\<rparr>)
      | Items result \<Rightarrow>
          (case store_results result (s\<lparr>touched := fold touch data_items (touched s)\<rparr>) of
             (Some e, s2) \<Rightarrow> (Inl e, s2)
           | (None, s2) \<Rightarrow> (Inr False, s2)))"
  by (simp add: evaluateTask_def Let_def)

subsection \<open>C6: an optional request key with a default\<close>

text \<open>
  Claim C6. Take a task within the buffer whose request key number \<open>i\<close> is
  \<open>(ty, fid, d, ...)\<close>, and let every request key that is not in the cache be longer than
  two (so no key makes the task wait). Then the evaluation resolves all keys and runs
  \<open>execute\<close>; argument \<open>i\<close> is the payload of the cached item at \<open>(ty, fid)\<close> when there is
  one, whatever the default, and \<open>d\<close> when there is none. In that case the item built for
  it is an object of this evaluation alone (it has no cell), and no such object is put into
  the cache: every entry of the cache after the evaluation was there before or is an object
  constructed during the evaluation from a returned triple.
\<close>

theorem C6_optional_key_with_default:
  assumes "\<not> frame_id s - getFrameId task > buffer_size s"
    and "i < length (required task)"
    and "required task ! i = Tup3 ty fid d ds"
    and "\<forall>key \<in> set (required task). lookup_key (data_cache s) key = None \<longrightarrow> len key > 2"
  shows "\<exists>data_items.
     fetch (data_cache s) (required task) = Some data_items \<and>
     length data_items = length (required task) \<and>
     map data data_items ! i =
       (case map_of (data_cache s) (ty, fid) of Some item \<Rightarrow> data item | None \<Rightarrow> d) \<and>
     evaluateTask s task =
       (case execute task (map data data_items) of
          Raises \<Rightarrow> (Inl TaskRaised, s\<lparr>touched := fold touch data_items (touched s)\<rparr>)
        | NoLen \<Rightarrow> (Inl InvalidList, s\<lparr>touched := fold touch data_items (touched s)\<rparr>)
        | Items result \<Rightarrow>
            (case store_results result (s\<lparr>touched := fold touch data_items (touched s)\<rparr>) of
               (Some e, s2) \<Rightarrow> (Inl e, s2)
             | (None, s2) \<Rightarrow> (Inr False, s2))) \<and>
     (map_of (data_cache s) (ty, fid) = None \<longrightarrow>
        data_items ! i = \<lparr>data_type = ty, data_frame_id = fid, data = d, cell = None\<rparr>) \<and>
     (\<forall>key item. map_of (data_cache (snd (evaluateTask s task))) key = Some item \<longrightarrow>
        map_of (data_cache s) key = Some item \<or>
        (\<exists>c. cell item = Some c \<and> next_cell s \<le> c))"
proof -
  from assms(4) obtain data_items where f: "fetch (data_cache s) (required task) = Some data_items"
    using fetch_Some_iff [of "data_cache s" "required task"] by blast
  from fetch_Some_nth [OF f] assms(2,3) have
    len: "length data_items = length (required task)" and
    nth: "case map_of (data_cache s) (ty, fid) of
            Some item \<Rightarrow> data_items ! i = item
          | None \<Rightarrow> data_items ! i = \<lparr>data_type = ty, data_frame_id = fid, data = d, cell = None\<rparr>"
    by (auto split: option.splits)
  from nth len assms(2) have a:
    "map data data_items ! i =
       (case map_of (data_cache s) (ty, fid) of Some item \<Rightarrow> data item | None \<Rightarrow> d)"
    by (auto split: option.splits)
  from nth have b: "map_of (data_cache s) (ty, fid) = None \<longrightarrow>
        data_items ! i = \<lparr>data_type = ty, data_frame_id = fid, data = d, cell = None\<rparr>"
    by (auto split: option.splits)
  have c: "\<forall>key item. map_of (data_cache (snd (evaluateTask s task))) key = Some item \<longrightarrow>
        map_of (data_cache s) key = Some item \<or>
        (\<exists>c. cell item = Some c \<and> next_cell s \<le> c)"
    using evaluateTask_cache [of s task "fst (evaluateTask s task)" "snd (evaluateTask s task)"]
    by simp
  note e = evaluateTask_execute [OF assms(1) f]
  show ?thesis
    by (intro exI [of _ data_items] conjI) (rule f len a e b c)+
qed

text \<open>
  On the example manager after one frame: the first key of the task is in the cache
  (payload 10, the default 99 is ignored), the second is not (default 7).
\<close>

theorem C6_witness:
  "fetch (data_cache ex_s1) (required (optional_task 0)) =
     Some [\<lparr>data_type = ''FRAME'', data_frame_id = 0, data = 10, cell = Some 0\<rparr>,
           \<lparr>data_type = ''AUX'', data_frame_id = 0, data = 7, cell = None\<rparr>] \<and>
   map_of (data_cache ex_s1) (''FRAME'', 0) =
     Some \<lparr>data_type = ''FRAME'', data_frame_id = 0, data = 10, cell = Some 0\<rparr> \<and>
   map_of (data_cache ex_s1) (''AUX'', 0) = None \<and>
   execute (optional_task 0) [10, 7] = Items [Tup3 ''OUT'' 0 17 []] \<and>
   fst (evaluateTask ex_s1 (optional_task 0)) = Inr False \<and>
   map_of (data_cache (snd (evaluateTask ex_s1 (optional_task 0)))) (''AUX'', 0) = None \<and>
   map_of (data_cache (snd (evaluateTask ex_s1 (optional_task 0)))) (''OUT'', 0) =
     Some \<lparr>data_type = ''OUT'', data_frame_id = 0, data = 17, cell = Some 1\<rparr> \<and>
   touched (snd (evaluateTask ex_s1 (optional_task 0))) 0 = 1"
proof -
  have a: "\<not> frame_id ex_s1 - getFrameId (optional_task 0) > buffer_size ex_s1"
    by (simp add: ex_s1_eq optional_task_def getFrameId_def)
  have b: "\<forall>key \<in> set (required (optional_task 0)).
             lookup_key (data_cache ex_s1) key = None \<longrightarrow> len key > 2"
    by (simp add: optional_task_def required_def)
  have c: "(0::nat) < length (required (optional_task 0))"
    "required (optional_task 0) ! 0 = Tup3 ''FRAME'' 0 99 []"
    "(1::nat) < length (required (optional_task 0))"
    "required (optional_task 0) ! 1 = Tup3 ''AUX'' 0 7 []"
    by (simp_all add: optional_task_def required_def)
  have d: "required (optional_task 0) = [Tup3 ''FRAME'' 0 99 [], Tup3 ''AUX'' 0 7 []]"
    "execute (optional_task 0) [10, 7] = Items [Tup3 ''OUT'' 0 17 []]"
    by (simp_all add: optional_task_def required_def)
  from C6_optional_key_with_default [OF a c(1,2) b]
       C6_optional_key_with_default [OF a c(3,4) b] d
  show ?thesis
    by (simp add: ex_s1_eq VideoDataItem_init_def cache_put_def touch_def)
qed

subsection \<open>Exceptions inside a scan\<close>

lemma filter_evaluateTask_append:
  "filter_evaluateTask earlier s = (Inr kept, s0) \<Longrightarrow>
   filter_evaluateTask (earlier @ tasks) s =
     (case filter_evaluateTask tasks s0 of
        (Inl e, s2) \<Rightarrow> (Inl e, s2)
      | (Inr kept2, s2) \<Rightarrow> (Inr (kept @ kept2), s2))"
proof (induction earlier arbitrary: s kept)
  case Nil
  then show ?case by (auto split: prod.splits sum.splits)
next
  case (Cons t earlier)
  from Cons.prems obtain keep s1 kept1 where
    ev: "evaluateTask s t = (Inr keep, s1)" and
    rest: "filter_evaluateTask earlier s1 = (Inr kept1, s0)" and
    kept: "kept = (if keep then t # kept1 else kept1)"
    by (auto split: prod.splits sum.splits)
  from Cons.IH [OF rest] ev kept show ?case
    by (auto split: prod.splits sum.splits)
qed

lemma scans_error:
  "scans s sc \<Longrightarrow> filter_evaluateTask (task_list sc) sc = (Inl e, s') \<Longrightarrow>
     runTasks s = (Some e, s')"
proof (induction rule: scans.induct)
  case (first s)
  then show ?case by (simp add: runTasks.simps [of s])
next
  case (later s kept s1 sc)
  then show ?case by (simp add: runTasks.simps [of s])
qed

lemma evaluation_error:
  assumes "scans s sc" and "task_list sc = earlier @ task # rest"
    and "filter_evaluateTask earlier sc = (Inr kept0, s0)"
    and "evaluateTask s0 task = (Inl e, s')"
  shows "runTasks s = (Some e, s')"
proof -
  from filter_evaluateTask_append [OF assms(3), of "task # rest"] assms(2,4)
  have "filter_evaluateTask (task_list sc) sc = (Inl e, s')" by simp
  with assms(1) show ?thesis by (rule scans_error)
qed

lemma evaluation_keep:
  assumes "task_list sc = earlier @ task # rest"
    and "filter_evaluateTask earlier sc = (Inr kept0, s0)"
    and "evaluateTask s0 task = (Inr True, s1)"
    and "filter_evaluateTask (task_list sc) sc = (Inr kept, s2)"
  shows "task \<in> set kept"
  using filter_evaluateTask_append [OF assms(2), of "task # rest"] assms(1,3,4)
  by (auto split: prod.splits sum.splits)

lemma addFrame_error:
  "runTasks (ingest s frame) = (Some e, s') \<Longrightarrow> addFrame s frame ilog = (Some e, s')"
  by (simp add: addFrame_def)

lemma store_results_first_bad:
  "\<forall>x \<in> set pre. len x = 3 \<Longrightarrow> len bad \<noteq> 3 \<Longrightarrow>
     fst (store_results pre s) = None \<and>
     store_results (pre @ bad # post) s = (Some InvalidItem, snd (store_results pre s))"
proof (induction pre arbitrary: s)
  case Nil
  then show ?case by (simp add: store_results_bad)
next
  case (Cons x pre)
  from Cons.prems(1) obtain ty fid d where x: "x = Tup3 ty fid d []"
    by (auto simp: len_eq_3)
  from Cons.prems have "\<forall>x \<in> set pre. len x = 3" by simp
  from Cons.IH [OF this Cons.prems(2)] show ?case
    unfolding x append_Cons store_results_Tup3 by simp
qed

lemma store_results_some_bad:
  assumes "\<exists>x \<in> set result. len x \<noteq> 3"
  shows "fst (store_results result s) = Some InvalidItem"
proof -
  from assms obtain pre bad post where
    "result = pre @ bad # post" "len bad \<noteq> 3" "\<forall>x \<in> set pre. \<not> len x \<noteq> 3"
    using split_list_first_prop [of result "\<lambda>x. len x \<noteq> 3"] by blast
  then show ?thesis
    using store_results_first_bad [of pre bad s post] by simp
qed

lemma store_results_untouched:
  "store_results result s = (r, s') \<Longrightarrow> \<forall>d. Tup3 ty fid d [] \<notin> set result \<Longrightarrow>
     map_of (data_cache s') (ty, fid) = map_of (data_cache s) (ty, fid)"
proof (induction result arbitrary: s)
  case Nil
  then show ?case by simp
next
  case (Cons x result)
  show ?case
  proof (cases "len x = 3")
    case False
    with Cons.prems show ?thesis by (simp add: store_results_bad)
  next
    case True
    then obtain ty0 fid0 d0 where x: "x = Tup3 ty0 fid0 d0 []"
      by (auto simp: len_eq_3)
    from Cons.prems(2) x have ne: "(ty0, fid0) \<noteq> (ty, fid)" by auto
    from Cons.prems(1) have st: "store_results result
       (s\<lparr> touched := (touched s)(next_cell s := 0),
           next_cell := Suc (next_cell s),
           data_cache := AList.update (ty0, fid0)
             \<lparr>data_type = ty0, data_frame_id = fid0, data = d0, cell = Some (next_cell s)\<rparr>
             (data_cache s) \<rparr>) = (r, s')"
      unfolding x store_results_Tup3 .
    from Cons.prems(2) have "\<forall>d. Tup3 ty fid d [] \<notin> set result" by simp
    from Cons.IH [OF st this] ne show ?thesis
      by (auto simp: update_conv')
  qed
qed

lemma store_results_present:
  "store_results pre s = (None, s') \<Longrightarrow> Tup3 ty fid d [] \<in> set pre \<Longrightarrow>
     \<exists>item. map_of (data_cache s') (ty, fid) = Some item \<and>
       (\<exists>c. cell item = Some c \<and> next_cell s \<le> c) \<and>
       Tup3 ty fid (data item) [] \<in> set pre"
proof (induction pre arbitrary: s d)
  case Nil
  then show ?case by simp
next
  case (Cons x pre)
  have "len x = 3"
  proof (rule ccontr)
    assume "len x \<noteq> 3"
    with Cons.prems(1) show False by (simp add: store_results_bad)
  qed
  then obtain ty0 fid0 d0 where x: "x = Tup3 ty0 fid0 d0 []"
    by (auto simp: len_eq_3)
  define s1 where "s1 = s\<lparr> touched := (touched s)(next_cell s := 0),
           next_cell := Suc (next_cell s),
           data_cache := AList.update (ty0, fid0)
             \<lparr>data_type = ty0, data_frame_id = fid0, data = d0, cell = Some (next_cell s)\<rparr>
             (data_cache s) \<rparr>"
  from Cons.prems(1) have st: "store_results pre s1 = (None, s')"
    unfolding x store_results_Tup3 s1_def .
  have n1: "next_cell s1 = Suc (next_cell s)" by (simp add: s1_def)
  show ?case
  proof (cases "\<exists>d'. Tup3 ty fid d' [] \<in> set pre")
    case True
    then obtain d' where "Tup3 ty fid d' [] \<in> set pre" ..
    from Cons.IH [OF st this] n1 show ?thesis by auto
  next
    case False
    with Cons.prems(2) x have eq: "ty0 = ty" "fid0 = fid" "d0 = d" by auto
    from False have "\<forall>d. Tup3 ty fid d [] \<notin> set pre" by simp
    from store_results_untouched [OF st this]
    have "map_of (data_cache s') (ty, fid) =
        Some \<lparr>data_type = ty, data_frame_id = fid, data = d, cell = Some (next_cell s)\<rparr>"
      by (simp add: s1_def eq update_conv')
    with x eq show ?thesis by auto
  qed
qed

lemma ingest_fields:
  "frame_id (ingest s frame) = frame_id s"
  "buffer_size (ingest s frame) = buffer_size s"
  "sink_calls (ingest s frame) = sink_calls s"
  "show_flag (ingest s frame) = show_flag s"
  "debug_level (ingest s frame) = debug_level s"
  "task_factories (ingest s frame) = task_factories s"
  "frame_list (ingest s frame) = frame_list s @
     [\<lparr>data_type = ''FRAME'', data_frame_id = frame_id s, data = frame,
       cell = Some (next_cell s)\<rparr>]"
  by (simp_all add: ingest_eq)

lemma ex_b0_ingest:
  "ingest ex_b0 10 = \<lparr> debug_level = 2, frame_id = 0,
       task_list = [waiting_task 0, bad_task 0],
       task_factories = [waiting_task, bad_task],
       data_cache = [((''FRAME'', 0),
          \<lparr>data_type = ''FRAME'', data_frame_id = 0, data = 10, cell = Some 0\<rparr>)],
       buffer_size = 1,
       frame_list = [\<lparr>data_type = ''FRAME'', data_frame_id = 0, data = 10, cell = Some 0\<rparr>],
       show_flag = True, touched = (\<lambda>c. 0), next_cell = 1, printed = [], sink_calls = [] \<rparr>"
  by (simp add: ex_b0_def eval_simps no_touch_upd)

lemma ex_n0_ingest:
  "ingest ex_n0 10 = \<lparr> debug_level = 2, frame_id = 0,
       task_list = [nolen_task 0],
       task_factories = [nolen_task],
       data_cache = [((''FRAME'', 0),
          \<lparr>data_type = ''FRAME'', data_frame_id = 0, data = 10, cell = Some 0\<rparr>)],
       buffer_size = 1,
       frame_list = [\<lparr>data_type = ''FRAME'', data_frame_id = 0, data = 10, cell = Some 0\<rparr>],
       show_flag = True, touched = (\<lambda>c. 0), next_cell = 1, printed = [], sink_calls = [] \<rparr>"
  by (simp add: ex_n0_def eval_simps no_touch_upd)

lemma ex_s0_ingest:
  "ingest ex_s0 10 = \<lparr> debug_level = 2, frame_id = 0,
       task_list = [waiting_task 0],
       task_factories = [waiting_task],
       data_cache = [((''FRAME'', 0),
          \<lparr>data_type = ''FRAME'', data_frame_id = 0, data = 10, cell = Some 0\<rparr>)],
       buffer_size = 1,
       frame_list = [\<lparr>data_type = ''FRAME'', data_frame_id = 0, data = 10, cell = Some 0\<rparr>],
       show_flag = True, touched = (\<lambda>c. 0), next_cell = 1, printed = [], sink_calls = [] \<rparr>"
  by (simp add: ex_s0_def eval_simps no_touch_upd)

lemma ex_b0_waiting:
  "filter_evaluateTask [waiting_task 0] (ingest ex_b0 10) =
     (Inr [waiting_task 0], ingest ex_b0 10)"
  unfolding ex_b0_ingest
  by (simp add: waiting_task_def evaluateTask_def getFrameId_def required_def)

subsection \<open>C4: what an evaluation raises and what it does not\<close>

text \<open>
  Claim C4. Take any evaluation of a task made during an \<open>addFrame\<close>: the task is at some
  place in the list a scan of that call goes through, and it is within the buffer, so that
  its request keys are resolved. If all keys resolve and \<open>execute\<close> returns a value without
  a length, \<open>addFrame\<close> raises; if \<open>execute\<close> returns a list with an item whose length is
  not 3, \<open>addFrame\<close> raises. If a request key of length 2 is not in the cache, the
  evaluation raises nothing, changes nothing and returns keep, and the list the scan
  builds, when the scan completes, holds the task.
\<close>

theorem C4_fatal_and_recovered:
  assumes "scans (ingest s frame) sc"
    and "task_list sc = earlier @ task # rest"
    and "filter_evaluateTask earlier sc = (Inr kept0, s0)"
    and "\<not> frame_id s0 - getFrameId task > buffer_size s0"
  shows
   "(\<forall>data_items. fetch (data_cache s0) (required task) = Some data_items \<longrightarrow>
       execute task (map data data_items) = NoLen \<longrightarrow>
       fst (addFrame s frame ilog) = Some InvalidList) \<and>
    (\<forall>data_items result. fetch (data_cache s0) (required task) = Some data_items \<longrightarrow>
       execute task (map data data_items) = Items result \<longrightarrow>
       (\<exists>x \<in> set result. len x \<noteq> 3) \<longrightarrow>
       fst (addFrame s frame ilog) = Some InvalidItem) \<and>
    ((\<exists>key \<in> set (required task). len key = 2 \<and> lookup_key (data_cache s0) key = None) \<longrightarrow>
       evaluateTask s0 task = (Inr True, s0) \<and>
       (\<forall>kept s2. filter_evaluateTask (task_list sc) sc = (Inr kept, s2) \<longrightarrow>
          task \<in> set kept))"
proof (intro conjI allI impI)
  fix data_items
  assume f: "fetch (data_cache s0) (required task) = Some data_items"
    and x: "execute task (map data data_items) = NoLen"
  from evaluateTask_execute [OF assms(4) f] x
  have "evaluateTask s0 task =
      (Inl InvalidList, s0\<lparr>touched := fold touch data_items (touched s0)\<rparr>)"
    by simp
  from evaluation_error [OF assms(1-3) this]
  show "fst (addFrame s frame ilog) = Some InvalidList"
    by (simp add: addFrame_error)
next
  fix data_items result
  assume f: "fetch (data_cache s0) (required task) = Some data_items"
    and x: "execute task (map data data_items) = Items result"
    and b: "\<exists>x \<in> set result. len x \<noteq> 3"
  define s1 where "s1 = s0\<lparr>touched := fold touch data_items (touched s0)\<rparr>"
  define s2 where "s2 = snd (store_results result s1)"
  from store_results_some_bad [OF b, of s1]
  have "store_results result s1 = (Some InvalidItem, s2)"
    by (simp add: prod_eq_iff s2_def)
  with evaluateTask_execute [OF assms(4) f] x
  have "evaluateTask s0 task = (Inl InvalidItem, s2)"
    by (simp add: s1_def)
  from evaluation_error [OF assms(1-3) this]
  show "fst (addFrame s frame ilog) = Some InvalidItem"
    by (simp add: addFrame_error)
next
  assume "\<exists>key \<in> set (required task). len key = 2 \<and> lookup_key (data_cache s0) key = None"
  then have "fetch (data_cache s0) (required task) = None"
    by (auto simp: fetch_None_iff)
  with assms(4) show k: "evaluateTask s0 task = (Inr True, s0)"
    by (simp add: evaluateTask_keep)
  fix kept s2
  assume "filter_evaluateTask (task_list sc) sc = (Inr kept, s2)"
  from evaluation_keep [OF assms(2,3) k this] show "task \<in> set kept" .
qed

text \<open>
  Three managers after \<open>ingest\<close> of a first frame: one with a task returning no list, one
  with a task returning a pair among triples, one with a task waiting for a missing key.
\<close>

theorem C4_witness:
  "execute (nolen_task 0) [10] = NoLen \<and>
   fst (addFrame ex_n0 10 True) = Some InvalidList \<and>
   execute (bad_task 0) [10] = Items [Tup3 ''Y'' 0 1 [], Tup2 ''Z'' 0, Tup3 ''W'' 0 2 []] \<and>
   fst (addFrame ex_b0 10 True) = Some InvalidItem \<and>
   required (waiting_task 0) = [Tup2 ''X'' 0] \<and>
   lookup_key (data_cache (ingest ex_s0 10)) (Tup2 ''X'' 0) = None \<and>
   evaluateTask (ingest ex_s0 10) (waiting_task 0) = (Inr True, ingest ex_s0 10) \<and>
   fst (filter_evaluateTask (task_list (ingest ex_s0 10)) (ingest ex_s0 10)) =
     Inr [waiting_task 0] \<and>
   fst (addFrame ex_s0 10 True) = None \<and>
   task_list (snd (addFrame ex_s0 10 True)) = [waiting_task 0]"
proof -
  let ?item = "\<lparr>data_type = ''FRAME'', data_frame_id = 0, data = 10::nat, cell = Some 0\<rparr>"
  have n1: "scans (ingest ex_n0 10) (ingest ex_n0 10)" by (rule scans.first)
  have n2: "task_list (ingest ex_n0 10) = [] @ nolen_task 0 # []"
    by (simp add: ex_n0_ingest)
  have n3: "filter_evaluateTask [] (ingest ex_n0 10) = (Inr [], ingest ex_n0 10)" by simp
  have n4: "\<not> frame_id (ingest ex_n0 10) - getFrameId (nolen_task 0) > buffer_size (ingest ex_n0 10)"
    by (simp add: ex_n0_ingest nolen_task_def getFrameId_def)
  have n5: "fetch (data_cache (ingest ex_n0 10)) (required (nolen_task 0)) = Some [?item]"
    "execute (nolen_task 0) (map data [?item]) = NoLen"
    by (simp_all add: ex_n0_ingest nolen_task_def required_def)
  from C4_fatal_and_recovered [OF n1 n2 n3 n4, of True] n5
  have n: "fst (addFrame ex_n0 10 True) = Some InvalidList" by blast
  have b1: "scans (ingest ex_b0 10) (ingest ex_b0 10)" by (rule scans.first)
  have b2: "task_list (ingest ex_b0 10) = [waiting_task 0] @ bad_task 0 # []"
    by (simp add: ex_b0_ingest)
  have b4: "\<not> frame_id (ingest ex_b0 10) - getFrameId (bad_task 0) > buffer_size (ingest ex_b0 10)"
    by (simp add: ex_b0_ingest bad_task_def getFrameId_def)
  have b5: "fetch (data_cache (ingest ex_b0 10)) (required (bad_task 0)) = Some [?item]"
    "execute (bad_task 0) (map data [?item]) =
       Items [Tup3 ''Y'' 0 1 [], Tup2 ''Z'' 0, Tup3 ''W'' 0 2 []]"
    "\<exists>x \<in> set [Tup3 ''Y'' 0 (1::nat) [], Tup2 ''Z'' 0, Tup3 ''W'' 0 2 []]. len x \<noteq> 3"
    by (simp_all add: ex_b0_ingest bad_task_def required_def)
  from C4_fatal_and_recovered [OF b1 b2 ex_b0_waiting b4, of True] b5
  have b: "fst (addFrame ex_b0 10 True) = Some InvalidItem" by blast
  have w1: "scans (ingest ex_s0 10) (ingest ex_s0 10)" by (rule scans.first)
  have w2: "task_list (ingest ex_s0 10) = [] @ waiting_task 0 # []"
    by (simp add: ex_s0_ingest)
  have w3: "filter_evaluateTask [] (ingest ex_s0 10) = (Inr [], ingest ex_s0 10)" by simp
  have w4: "\<not> frame_id (ingest ex_s0 10) - getFrameId (waiting_task 0) > buffer_size (ingest ex_s0 10)"
    by (simp add: ex_s0_ingest waiting_task_def getFrameId_def)
  have w5: "required (waiting_task 0) = [Tup2 ''X'' 0]"
    "lookup_key (data_cache (ingest ex_s0 10)) (Tup2 ''X'' 0) = None"
    by (simp_all add: ex_s0_ingest waiting_task_def required_def)
  then have w6: "\<exists>key \<in> set (required (waiting_task 0)).
      len key = 2 \<and> lookup_key (data_cache (ingest ex_s0 10)) key = None"
    by simp
  from C4_fatal_and_recovered [OF w1 w2 w3 w4, of True] w6
  have w: "evaluateTask (ingest ex_s0 10) (waiting_task 0) = (Inr True, ingest ex_s0 10)"
    by blast
  then have ws: "fst (filter_evaluateTask (task_list (ingest ex_s0 10)) (ingest ex_s0 10)) =
     Inr [waiting_task 0]"
    by (simp add: w2)
  have e: "task_list (snd (addFrame ex_s0 10 True)) = [waiting_task 0]"
    using ex_s1_eq by (simp add: ex_s1_def)
  from n b w ws w5 e ex_s1_ok n5(2) b5(2) show ?thesis by simp
qed

subsection \<open>C9: a malformed item leaves the earlier items in the cache\<close>

text \<open>
  Claim C9. Take an evaluation made during an \<open>addFrame\<close>, of a task within the buffer,
  whose keys resolve and whose \<open>execute\<close> returns a list \<open>pre @ bad # post\<close> where every
  item of \<open>pre\<close> has length 3 and \<open>bad\<close> has not. Then \<open>addFrame\<close> raises, and the manager
  the caller is left with is the one the evaluation reached after storing \<open>pre\<close>: for each
  triple of \<open>pre\<close> the cache holds, at its key, an item constructed in this evaluation from
  a triple of \<open>pre\<close> with that key. \<open>frame_id\<close> is not incremented, no sink is called, and
  the frame list is the old one with the new frame appended: nothing was released.
\<close>

theorem C9_failure_is_not_atomic:
  assumes "scans (ingest s frame) sc"
    and "task_list sc = earlier @ task # rest"
    and "filter_evaluateTask earlier sc = (Inr kept0, s0)"
    and "\<not> frame_id s0 - getFrameId task > buffer_size s0"
    and "fetch (data_cache s0) (required task) = Some data_items"
    and "execute task (map data data_items) = Items (pre @ bad # post)"
    and "\<forall>x \<in> set pre. len x = 3"
    and "len bad \<noteq> 3"
  shows "\<exists>s'.
     addFrame s frame ilog = (Some InvalidItem, s') \<and>
     store_results pre (s0\<lparr>touched := fold touch data_items (touched s0)\<rparr>) = (None, s') \<and>
     (\<forall>ty fid d. Tup3 ty fid d [] \<in> set pre \<longrightarrow>
        (\<exists>item. map_of (data_cache s') (ty, fid) = Some item \<and>
           (\<exists>c. cell item = Some c \<and> next_cell s0 \<le> c) \<and>
           Tup3 ty fid (data item) [] \<in> set pre)) \<and>
     frame_id s' = frame_id s \<and>
     sink_calls s' = sink_calls s \<and>
     frame_list s' = frame_list s @
       [\<lparr>data_type = ''FRAME'', data_frame_id = frame_id s, data = frame,
         cell = Some (next_cell s)\<rparr>]"
proof -
  define s1 where "s1 = s0\<lparr>touched := fold touch data_items (touched s0)\<rparr>"
  define s' where "s' = snd (store_results pre s1)"
  from store_results_first_bad [OF assms(7,8), of s1 post]
  have pre: "store_results pre s1 = (None, s')"
    and all: "store_results (pre @ bad # post) s1 = (Some InvalidItem, s')"
    by (simp_all add: s'_def prod_eq_iff)
  from evaluateTask_execute [OF assms(4,5)] assms(6) all
  have "evaluateTask s0 task = (Inl InvalidItem, s')"
    by (simp add: s1_def)
  from evaluation_error [OF assms(1-3) this]
  have run: "runTasks (ingest s frame) = (Some InvalidItem, s')" .
  then have add: "addFrame s frame ilog = (Some InvalidItem, s')"
    by (rule addFrame_error)
  from runTasks_control [OF run]
  have fields: "frame_id s' = frame_id s" "sink_calls s' = sink_calls s"
    "frame_list s' = frame_list s @
       [\<lparr>data_type = ''FRAME'', data_frame_id = frame_id s, data = frame,
         cell = Some (next_cell s)\<rparr>]"
    by (simp_all add: same_control_def ingest_fields)
  have cache: "\<forall>ty fid d. Tup3 ty fid d [] \<in> set pre \<longrightarrow>
        (\<exists>item. map_of (data_cache s') (ty, fid) = Some item \<and>
           (\<exists>c. cell item = Some c \<and> next_cell s0 \<le> c) \<and>
           Tup3 ty fid (data item) [] \<in> set pre)"
    using store_results_present [OF pre] by (simp add: s1_def)
  from add pre cache fields show ?thesis
    unfolding s1_def by blast
qed

text \<open>
  The manager with the task returning \<open>(Y, 0, 1)\<close>, a pair, \<open>(W, 0, 2)\<close>: after the
  exception the cache holds \<open>Y\<close> and not \<open>W\<close>, and the task list still holds both tasks.
\<close>

theorem C9_witness:
  "fst (addFrame ex_b0 10 True) = Some InvalidItem \<and>
   execute (bad_task 0) [10] = Items [Tup3 ''Y'' 0 1 [], Tup2 ''Z'' 0, Tup3 ''W'' 0 2 []] \<and>
   map_of (data_cache ex_b0) (''Y'', 0) = None \<and>
   map_of (data_cache (snd (addFrame ex_b0 10 True))) (''Y'', 0) =
     Some \<lparr>data_type = ''Y'', data_frame_id = 0, data = 1, cell = Some 1\<rparr> \<and>
   map_of (data_cache (snd (addFrame ex_b0 10 True))) (''W'', 0) = None \<and>
   frame_id ex_b0 = 0 \<and>
   frame_id (snd (addFrame ex_b0 10 True)) = 0 \<and>
   sink_calls (snd (addFrame ex_b0 10 True)) = [] \<and>
   map data (frame_list (snd (addFrame ex_b0 10 True))) = [10] \<and>
   task_list (snd (addFrame ex_b0 10 True)) = [waiting_task 0, bad_task 0]"
proof -
  let ?item = "\<lparr>data_type = ''FRAME'', data_frame_id = 0, data = 10::nat, cell = Some 0\<rparr>"
  have p1: "scans (ingest ex_b0 10) (ingest ex_b0 10)"
    by (rule scans.first)
  have p2: "task_list (ingest ex_b0 10) = [waiting_task 0] @ bad_task 0 # []"
    by (simp add: ex_b0_ingest)
  have p4: "\<not> frame_id (ingest ex_b0 10) - getFrameId (bad_task 0) > buffer_size (ingest ex_b0 10)"
    by (simp add: ex_b0_ingest bad_task_def getFrameId_def)
  have p5: "fetch (data_cache (ingest ex_b0 10)) (required (bad_task 0)) = Some [?item]"
    by (simp add: ex_b0_ingest bad_task_def required_def)
  have p6: "execute (bad_task 0) (map data [?item]) =
      Items ([Tup3 ''Y'' 0 1 []] @ Tup2 ''Z'' 0 # [Tup3 ''W'' 0 2 []])"
    by (simp add: bad_task_def)
  have p7: "\<forall>x \<in> set [Tup3 ''Y'' 0 (1::nat) []]. len x = 3" by simp
  have p8: "len (Tup2 ''Z'' 0 :: nat tup) \<noteq> 3" by simp
  from C9_failure_is_not_atomic [OF p1 p2 ex_b0_waiting p4 p5 p6 p7 p8, of True]
  obtain s' where
    a: "addFrame ex_b0 10 True = (Some InvalidItem, s')" and
    b: "store_results [Tup3 ''Y'' 0 1 []]
          ((ingest ex_b0 10)\<lparr>touched := fold touch [?item] (touched (ingest ex_b0 10))\<rparr>) =
        (None, s')" and
    c: "frame_id s' = frame_id ex_b0" "sink_calls s' = sink_calls ex_b0"
      "frame_list s' = frame_list ex_b0 @
         [\<lparr>data_type = ''FRAME'', data_frame_id = frame_id ex_b0, data = 10,
           cell = Some (next_cell ex_b0)\<rparr>]"
    by blast
  from b have s': "s' = (ingest ex_b0 10)
      \<lparr>touched := (\<lambda>c. 0)(0 := 1, 1 := 0), next_cell := Suc (Suc 0),
       data_cache := [((''FRAME'', 0), ?item),
         ((''Y'', 0), \<lparr>data_type = ''Y'', data_frame_id = 0, data = 1, cell = Some 1\<rparr>)]\<rparr>"
    by (simp add: ex_b0_ingest VideoDataItem_init_def cache_put_def touch_def)
  have d: "frame_id ex_b0 = 0" "sink_calls ex_b0 = []" "frame_list ex_b0 = []"
    "data_cache ex_b0 = []"
    by (simp_all add: ex_b0_def VideoTaskManager_init_def addTaskFactory_def)
  from a c d s' show ?thesis
    by (simp add: ex_b0_ingest bad_task_def)
qed

subsection \<open>Releases\<close>

lemma frames_of_append: "frames_of (calls @ calls') = frames_of calls @ frames_of calls'"
  by (induction calls rule: frames_of.induct) auto

lemma shown_append: "shown (calls @ calls') = shown calls @ shown calls'"
  by (induction calls rule: shown.induct) auto

lemma logged_append: "logged (calls @ calls') = logged calls @ logged calls'"
  by (induction calls rule: logged.induct) auto

lemma shown_release:
  "shown (concat (map (release_calls shw ilog) rel)) = (if shw then map data rel else [])"
  by (induction rel) (auto simp: release_calls_def shown_append)

lemma logged_release:
  "logged (concat (map (release_calls shw ilog) rel)) = (if ilog then map data rel else [])"
  by (induction rel) (auto simp: release_calls_def logged_append)

lemma addFrame_release:
  "\<exists>rel. frame_list s @
       [\<lparr>data_type = ''FRAME'', data_frame_id = frame_id s, data = frame,
         cell = Some (next_cell s)\<rparr>] = rel @ frame_list (snd (addFrame s frame ilog)) \<and>
     sink_calls (snd (addFrame s frame ilog)) =
       sink_calls s @ concat (map (release_calls (show_flag s) ilog) rel) \<and>
     (\<forall>frame_data \<in> set rel. \<forall>task \<in> set (task_list (snd (addFrame s frame ilog))).
        getFrameId task \<noteq> data_frame_id frame_data) \<and>
     (fst (addFrame s frame ilog) \<noteq> None \<longrightarrow> rel = []) \<and>
     show_flag (snd (addFrame s frame ilog)) = show_flag s"
proof (cases "runTasks (ingest s frame)")
  case (Pair r s4)
  note run = this
  from runTasks_control [OF run] have c4:
    "frame_list s4 = frame_list (ingest s frame)" "sink_calls s4 = sink_calls s"
    "show_flag s4 = show_flag s"
    by (simp_all add: same_control_def ingest_fields)
  show ?thesis
  proof (cases r)
    case (Some e)
    with run have "addFrame s frame ilog = (Some e, s4)"
      by (simp add: addFrame_def)
    with c4 show ?thesis
      by (intro exI [of _ "[]"]) (simp add: ingest_fields)
  next
    case None
    show ?thesis
    proof (cases "cleanUp s4")
      case (Pair r5 s5)
      note clean = this
      from cleanUp_control [OF clean] c4 have c5:
        "frame_list s5 = frame_list (ingest s frame)" "sink_calls s5 = sink_calls s"
        "show_flag s5 = show_flag s"
        by (simp_all add: same_control_def)
      show ?thesis
      proof (cases r5)
        case (Some e)
        with run None clean have "addFrame s frame ilog = (Some e, s5)"
          by (simp add: addFrame_def)
        with c5 show ?thesis
          by (intro exI [of _ "[]"]) (simp add: ingest_fields)
      next
        case None
        define s6 where "s6 = s5\<lparr>frame_id := frame_id s5 + 1\<rparr>"
        from run \<open>r = None\<close> clean None
        have add: "addFrame s frame ilog = (None, showFrames s6 ilog)"
          by (simp add: addFrame_def s6_def)
        from showFrames_released [of s6 ilog] obtain rel where
          r1: "frame_list s6 = rel @ frame_list (showFrames s6 ilog)" and
          r2: "sink_calls (showFrames s6 ilog) =
                 sink_calls s6 @ concat (map (release_calls (show_flag s6) ilog) rel)" and
          r3: "\<forall>frame_data \<in> set rel. \<forall>task \<in> set (task_list s6).
                 getFrameId task \<noteq> data_frame_id frame_data"
          by blast
        have f6: "frame_list s6 = frame_list (ingest s frame)" "sink_calls s6 = sink_calls s"
          "show_flag s6 = show_flag s"
          using c5 by (simp_all add: s6_def)
        have "task_list (showFrames s6 ilog) = task_list s6"
          "show_flag (showFrames s6 ilog) = show_flag s6"
          by (simp_all add: showFrames_fields)
        with r1 r2 r3 f6 add show ?thesis
          by (intro exI [of _ rel]) (simp add: ingest_fields)
      qed
    qed
  qed
qed

lemma run_snoc: "run s (calls @ [c]) = call (run s calls) c"
  by (simp add: run_def)

lemma run_released:
  "\<exists>rel. frames_of calls =
       rel @ map data (frame_list (run (VideoTaskManager_init dbg bsize shw) calls)) \<and>
     shown (sink_calls (run (VideoTaskManager_init dbg bsize shw) calls)) =
       (if shw then rel else []) \<and>
     subseq (logged (sink_calls (run (VideoTaskManager_init dbg bsize shw) calls))) rel \<and>
     ((\<forall>frame ilog. AddFrame frame ilog \<in> set calls \<longrightarrow> ilog) \<longrightarrow>
        logged (sink_calls (run (VideoTaskManager_init dbg bsize shw) calls)) = rel) \<and>
     show_flag (run (VideoTaskManager_init dbg bsize shw) calls) = shw"
proof (induction calls rule: rev_induct)
  case Nil
  show ?case
    by (simp add: run_def VideoTaskManager_init_def)
next
  case (snoc c calls)
  define s where "s = run (VideoTaskManager_init dbg bsize shw :: 'a VideoTaskManager) calls"
  from snoc [folded s_def] obtain rel where
    i1: "frames_of calls = rel @ map data (frame_list s)" and
    i2: "shown (sink_calls s) = (if shw then rel else [])" and
    i3: "subseq (logged (sink_calls s)) rel" and
    i4: "(\<forall>frame ilog. AddFrame frame ilog \<in> set calls \<longrightarrow> ilog) \<longrightarrow>
           logged (sink_calls s) = rel" and
    i5: "show_flag s = shw"
    by blast
  have step: "run (VideoTaskManager_init dbg bsize shw) (calls @ [c]) = call s c"
    by (simp add: run_snoc s_def)
  show ?case
  proof (cases c)
    case (AddTaskFactory task_factory)
    have step': "run (VideoTaskManager_init dbg bsize shw) (calls @ [c]) =
        s\<lparr>task_factories := task_factories s @ [task_factory]\<rparr>"
      unfolding step by (simp add: AddTaskFactory addTaskFactory_def)
    from AddTaskFactory i1 i2 i3 i4 i5 show ?thesis
      unfolding step'
      by (intro exI [of _ rel]) (simp add: frames_of_append)
  next
    case (AddFrame frame ilog)
    define s' where "s' = snd (addFrame s frame ilog)"
    from addFrame_release [of s frame ilog, folded s'_def] obtain rel' where
      a1: "frame_list s @
         [\<lparr>data_type = ''FRAME'', data_frame_id = frame_id s, data = frame,
           cell = Some (next_cell s)\<rparr>] = rel' @ frame_list s'" and
      a2: "sink_calls s' = sink_calls s @ concat (map (release_calls (show_flag s) ilog) rel')" and
      a5: "show_flag s' = show_flag s"
      by blast
    from a1 have "map data (frame_list s) @ [frame] = map data rel' @ map data (frame_list s')"
      by (metis (no_types, lifting) VideoDataItem.select_convs(3) list.simps(8,9) map_append)
    with i1 have f: "frames_of (calls @ [c]) = (rel @ map data rel') @ map data (frame_list s')"
      by (simp add: frames_of_append AddFrame)
    from a2 i2 i5 have sh: "shown (sink_calls s') = (if shw then rel @ map data rel' else [])"
      by (simp add: shown_append shown_release)
    from a2 have lg: "logged (sink_calls s') =
        logged (sink_calls s) @ (if ilog then map data rel' else [])"
      by (simp add: logged_append logged_release)
    have "subseq (if ilog then map data rel' else []) (map data rel')"
      by simp
    with i3 lg have sub: "subseq (logged (sink_calls s')) (rel @ map data rel')"
      by (simp add: list_emb_append_mono)
    have al: "(\<forall>frame ilog. AddFrame frame ilog \<in> set (calls @ [c]) \<longrightarrow> ilog) \<longrightarrow>
           logged (sink_calls s') = rel @ map data rel'"
      using i4 lg AddFrame by auto
    have step': "run (VideoTaskManager_init dbg bsize shw) (calls @ [c]) = s'"
      unfolding step by (simp add: AddFrame s'_def)
    from f sh sub al a5 i5 show ?thesis
      unfolding step'
      by (intro exI [of _ "rel @ map data rel'"]) simp
  qed
qed

lemma remainingTasksForFrame_cache [simp]:
  "remainingTasksForFrame (s\<lparr>data_cache := cache\<rparr>) fid = remainingTasksForFrame s fid"
  by (simp add: remainingTasksForFrame_def)

lemma showFrames_cache:
  "showFrames (s\<lparr>data_cache := cache\<rparr>) ilog = (showFrames s ilog)\<lparr>data_cache := cache\<rparr>"
proof (induction s ilog rule: showFrames.induct)
  case (1 s ilog)
  show ?case
  proof (cases "frame_list s")
    case Nil
    then show ?thesis
      by (simp add: showFrames.simps [of s] showFrames.simps [of "s\<lparr>data_cache := cache\<rparr>"])
  next
    case (Cons frame_data rest)
    show ?thesis
    proof (cases "remainingTasksForFrame s (data_frame_id frame_data) = 0")
      case True
      define s1 where "s1 = s\<lparr> sink_calls := sink_calls s @
                     (if show_flag s then [Show (data frame_data)] else []) @
                     (if ilog then [Ilog (data frame_data)] else []),
                   frame_list := rest \<rparr>"
      have swap: "(s\<lparr>data_cache := cache\<rparr>)\<lparr> sink_calls := sink_calls s @
                     (if show_flag s then [Show (data frame_data)] else []) @
                     (if ilog then [Ilog (data frame_data)] else []),
                   frame_list := rest \<rparr> = s1\<lparr>data_cache := cache\<rparr>"
        by (cases s) (simp add: s1_def)
      from Cons True have "showFrames (s\<lparr>data_cache := cache\<rparr>) ilog =
          showFrames (s1\<lparr>data_cache := cache\<rparr>) ilog"
        by (simp add: showFrames.simps [of "s\<lparr>data_cache := cache\<rparr>"] swap)
      also from "1.IH" [OF Cons True, folded s1_def]
      have "\<dots> = (showFrames s1 ilog)\<lparr>data_cache := cache\<rparr>" .
      also from Cons True have "showFrames s1 ilog = showFrames s ilog"
        by (simp add: showFrames.simps [of s] s1_def)
      finally show ?thesis .
    next
      case False
      with Cons show ?thesis
        by (simp add: showFrames.simps [of s] showFrames.simps [of "s\<lparr>data_cache := cache\<rparr>"])
    qed
  qed
qed

lemma showFrames_head:
  assumes "frame_list s = frame_data # rest"
    and "\<forall>task \<in> set (task_list s). getFrameId task \<noteq> data_frame_id frame_data"
  shows "\<exists>more. sink_calls (showFrames s ilog) =
           sink_calls s @ release_calls (show_flag s) ilog frame_data @ more"
proof -
  define s1 where "s1 = s\<lparr> sink_calls := sink_calls s @
                     (if show_flag s then [Show (data frame_data)] else []) @
                     (if ilog then [Ilog (data frame_data)] else []),
                   frame_list := rest \<rparr>"
  from assms have "showFrames s ilog = showFrames s1 ilog"
    by (simp add: showFrames.simps [of s] s1_def remainingTasksForFrame_0)
  moreover from showFrames_released [of s1 ilog] obtain rel where
    "sink_calls (showFrames s1 ilog) =
       sink_calls s1 @ concat (map (release_calls (show_flag s1) ilog) rel)"
    by blast
  moreover have "sink_calls s1 = sink_calls s @ release_calls (show_flag s) ilog frame_data"
    by (simp add: s1_def release_calls_def)
  ultimately show ?thesis by simp
qed

lemma ex_s2_ingest:
  "ingest ex_s2 12 = \<lparr> debug_level = 2, frame_id = 2,
       task_list = [waiting_task 0, waiting_task 1, waiting_task 2],
       task_factories = [waiting_task],
       data_cache = [((''FRAME'', 0),
          \<lparr>data_type = ''FRAME'', data_frame_id = 0, data = 10, cell = Some 0\<rparr>),
          ((''FRAME'', 1),
          \<lparr>data_type = ''FRAME'', data_frame_id = 1, data = 11, cell = Some 1\<rparr>),
          ((''FRAME'', 2),
          \<lparr>data_type = ''FRAME'', data_frame_id = 2, data = 12, cell = Some 2\<rparr>)],
       buffer_size = 1,
       frame_list = [\<lparr>data_type = ''FRAME'', data_frame_id = 0, data = 10, cell = Some 0\<rparr>,
          \<lparr>data_type = ''FRAME'', data_frame_id = 1, data = 11, cell = Some 1\<rparr>,
          \<lparr>data_type = ''FRAME'', data_frame_id = 2, data = 12, cell = Some 2\<rparr>],
       show_flag = True, touched = (\<lambda>c. 0), next_cell = 3, printed = [], sink_calls = [] \<rparr>"
  by (simp add: ex_s2_eq ingest_eq no_touch_upd)

lemma ex_pre3_eq:
  "ex_pre3 = \<lparr> debug_level = 2, frame_id = 3,
       task_list = [waiting_task 1, waiting_task 2],
       task_factories = [waiting_task],
       data_cache = [((''FRAME'', 1),
          \<lparr>data_type = ''FRAME'', data_frame_id = 1, data = 11, cell = Some 1\<rparr>),
          ((''FRAME'', 2),
          \<lparr>data_type = ''FRAME'', data_frame_id = 2, data = 12, cell = Some 2\<rparr>)],
       buffer_size = 1,
       frame_list = [\<lparr>data_type = ''FRAME'', data_frame_id = 0, data = 10, cell = Some 0\<rparr>,
          \<lparr>data_type = ''FRAME'', data_frame_id = 1, data = 11, cell = Some 1\<rparr>,
          \<lparr>data_type = ''FRAME'', data_frame_id = 2, data = 12, cell = Some 2\<rparr>],
       show_flag = True, touched = (\<lambda>c. 0), next_cell = 3,
       printed = [TaskNotExecuted 0, DataNeverUsed ''FRAME'' 0], sink_calls = [] \<rparr>"
  unfolding ex_pre3_def ex_s2_ingest
  by (simp add: waiting_task_def runTasks.simps evaluateTask_def getFrameId_def required_def
      cleanUp_def getTouched_def)

lemma ex_s3_showFrames: "addFrame ex_s2 12 True = (None, showFrames ex_pre3 True)"
  unfolding addFrame_def ex_pre3_def ex_s2_ingest
  by (simp add: waiting_task_def runTasks.simps evaluateTask_def getFrameId_def required_def
      cleanUp_def getTouched_def)

lemma ex_s3_eq:
  "ex_s3 = \<lparr> debug_level = 2, frame_id = 3,
       task_list = [waiting_task 1, waiting_task 2],
       task_factories = [waiting_task],
       data_cache = [((''FRAME'', 1),
          \<lparr>data_type = ''FRAME'', data_frame_id = 1, data = 11, cell = Some 1\<rparr>),
          ((''FRAME'', 2),
          \<lparr>data_type = ''FRAME'', data_frame_id = 2, data = 12, cell = Some 2\<rparr>)],
       buffer_size = 1,
       frame_list = [\<lparr>data_type = ''FRAME'', data_frame_id = 1, data = 11, cell = Some 1\<rparr>,
          \<lparr>data_type = ''FRAME'', data_frame_id = 2, data = 12, cell = Some 2\<rparr>],
       show_flag = True, touched = (\<lambda>c. 0), next_cell = 3,
       printed = [TaskNotExecuted 0, DataNeverUsed ''FRAME'' 0],
       sink_calls = [Show 10, Ilog 10] \<rparr>"
  unfolding ex_s3_def ex_s3_showFrames snd_conv ex_pre3_eq
  by (simp add: showFrames.simps remainingTasksForFrame_def getFrameId_def waiting_task_def)

lemma ex_calls_run:
  "map data (frame_list (run (VideoTaskManager_init 2 1 True) ex_calls)) = [11]"
  "sink_calls (run (VideoTaskManager_init 2 1 True) ex_calls) = [Show 10]"
  by (simp_all add: ex_calls_def waiting_task_def eval_simps)

subsection \<open>C1: frames are released from the head of the queue, in the order they came\<close>

text \<open>
  Claim C1. First, for every sequence of calls on a new manager (factories registered and
  frames added in any order, exceptions of \<open>addFrame\<close> caught by the caller): the frames
  handed to \<open>addFrame\<close> so far are, in order, the released frames \<open>rel\<close> followed by the
  frames still in the queue. The frames shown are exactly \<open>rel\<close> when \<open>show\<close> is set (and
  none otherwise); the frames passed to a log are a subsequence of \<open>rel\<close>, and exactly
  \<open>rel\<close> when every call came with a log. Second, for every single \<open>addFrame\<close> on any
  manager: the sink calls it makes are those of a prefix \<open>rel\<close> of the queue (the old queue
  with the new frame at its end), in queue order, that prefix leaves the queue, and no task
  in the pending list has the frame id of a frame of \<open>rel\<close>.
\<close>

theorem C1_released_in_ingestion_order:
  "(\<exists>rel. frames_of calls =
        rel @ map data (frame_list (run (VideoTaskManager_init dbg bsize shw) calls)) \<and>
      shown (sink_calls (run (VideoTaskManager_init dbg bsize shw) calls)) =
        (if shw then rel else []) \<and>
      subseq (logged (sink_calls (run (VideoTaskManager_init dbg bsize shw) calls))) rel \<and>
      ((\<forall>frame ilog. AddFrame frame ilog \<in> set calls \<longrightarrow> ilog) \<longrightarrow>
         logged (sink_calls (run (VideoTaskManager_init dbg bsize shw) calls)) = rel)) \<and>
   (\<exists>rel. frame_list s @
        [\<lparr>data_type = ''FRAME'', data_frame_id = frame_id s, data = frame,
          cell = Some (next_cell s)\<rparr>] = rel @ frame_list (snd (addFrame s frame ilog)) \<and>
      sink_calls (snd (addFrame s frame ilog)) =
        sink_calls s @ concat (map (release_calls (show_flag s) ilog) rel) \<and>
      (\<forall>frame_data \<in> set rel. \<forall>task \<in> set (task_list (snd (addFrame s frame ilog))).
         getFrameId task \<noteq> data_frame_id frame_data))"
proof
  from run_released [of calls dbg bsize shw]
  show "\<exists>rel. frames_of calls =
        rel @ map data (frame_list (run (VideoTaskManager_init dbg bsize shw) calls)) \<and>
      shown (sink_calls (run (VideoTaskManager_init dbg bsize shw) calls)) =
        (if shw then rel else []) \<and>
      subseq (logged (sink_calls (run (VideoTaskManager_init dbg bsize shw) calls))) rel \<and>
      ((\<forall>frame ilog. AddFrame frame ilog \<in> set calls \<longrightarrow> ilog) \<longrightarrow>
         logged (sink_calls (run (VideoTaskManager_init dbg bsize shw) calls)) = rel)"
    by blast
next
  from addFrame_release [of s frame ilog]
  show "\<exists>rel. frame_list s @
        [\<lparr>data_type = ''FRAME'', data_frame_id = frame_id s, data = frame,
          cell = Some (next_cell s)\<rparr>] = rel @ frame_list (snd (addFrame s frame ilog)) \<and>
      sink_calls (snd (addFrame s frame ilog)) =
        sink_calls s @ concat (map (release_calls (show_flag s) ilog) rel) \<and>
      (\<forall>frame_data \<in> set rel. \<forall>task \<in> set (task_list (snd (addFrame s frame ilog))).
         getFrameId task \<noteq> data_frame_id frame_data)"
    by blast
qed

text \<open>
  A first frame without a log and without tasks is released at once; a second frame with a
  waiting task stays queued. On the example manager the third frame makes the task of
  frame 0 stale, and frame 0 alone is released.
\<close>

theorem C1_witness:
  "frames_of ex_calls = [10, 11] \<and>
   map data (frame_list (run (VideoTaskManager_init 2 1 True) ex_calls)) = [11] \<and>
   shown (sink_calls (run (VideoTaskManager_init 2 1 True) ex_calls)) = [10] \<and>
   logged (sink_calls (run (VideoTaskManager_init 2 1 True) ex_calls)) = [] \<and>
   map data (frame_list ex_s2) = [10, 11] \<and>
   map data (frame_list (snd (addFrame ex_s2 12 True))) = [11, 12] \<and>
   sink_calls (snd (addFrame ex_s2 12 True)) = [Show 10, Ilog 10] \<and>
   map getFrameId (task_list (snd (addFrame ex_s2 12 True))) = [1, 2]"
proof -
  have a: "frames_of ex_calls = [10, 11]"
    by (simp add: ex_calls_def)
  have b: "map data (frame_list ex_s2) = [10, 11]"
    by (simp add: ex_s2_eq)
  have c: "map data (frame_list (snd (addFrame ex_s2 12 True))) = [11, 12]"
    "sink_calls (snd (addFrame ex_s2 12 True)) = [Show 10, Ilog 10]"
    "map getFrameId (task_list (snd (addFrame ex_s2 12 True))) = [1, 2]"
    using ex_s3_eq by (simp_all add: ex_s3_def getFrameId_def waiting_task_def)
  from C1_released_in_ingestion_order [of ex_calls 2 1 True ex_s2 12 True] a b c ex_calls_run
  show ?thesis by simp
qed

subsection \<open>C10: a release does not need the frame's item in the cache\<close>

text \<open>
  Claim C10. \<open>showFrames\<close> does not read the data cache: with any other cache in place it
  releases the same frames and leaves that cache as it is. A frame at the head of the queue
  with no pending task of its frame id is released with the payload of the item in the
  queue. And the items in the queue carry, in order, the payloads the frames were ingested
  with, whatever happened to the cache.
\<close>

theorem C10_release_does_not_read_the_cache:
  "showFrames (s\<lparr>data_cache := cache\<rparr>) ilog = (showFrames s ilog)\<lparr>data_cache := cache\<rparr> \<and>
   (frame_list s = frame_data # rest \<longrightarrow>
    (\<forall>task \<in> set (task_list s). getFrameId task \<noteq> data_frame_id frame_data) \<longrightarrow>
    (\<exists>more. sink_calls (showFrames s ilog) =
        sink_calls s @ release_calls (show_flag s) ilog frame_data @ more)) \<and>
   (\<exists>rel. frames_of calls =
      rel @ map data (frame_list (run (VideoTaskManager_init dbg bsize shw) calls)))"
proof (intro conjI impI)
  show "showFrames (s\<lparr>data_cache := cache\<rparr>) ilog = (showFrames s ilog)\<lparr>data_cache := cache\<rparr>"
    by (rule showFrames_cache)
next
  assume "frame_list s = frame_data # rest"
    and "\<forall>task \<in> set (task_list s). getFrameId task \<noteq> data_frame_id frame_data"
  then show "\<exists>more. sink_calls (showFrames s ilog) =
        sink_calls s @ release_calls (show_flag s) ilog frame_data @ more"
    by (rule showFrames_head)
next
  from run_released [of calls dbg bsize shw]
  show "\<exists>rel. frames_of calls =
      rel @ map data (frame_list (run (VideoTaskManager_init dbg bsize shw) calls))"
    by blast
qed

text \<open>
  The example manager in its third \<open>addFrame\<close>: when \<open>showFrames\<close> is called, \<open>_cleanUp\<close>
  has deleted the item of frame 0 from the cache, and frame 0 is released with its
  payload 10.
\<close>

theorem C10_witness:
  "map_of (data_cache ex_s2) (''FRAME'', 0) =
     Some \<lparr>data_type = ''FRAME'', data_frame_id = 0, data = 10, cell = Some 0\<rparr> \<and>
   map_of (data_cache ex_pre3) (''FRAME'', 0) = None \<and>
   frame_list ex_pre3 =
     \<lparr>data_type = ''FRAME'', data_frame_id = 0, data = 10, cell = Some 0\<rparr> #
     [\<lparr>data_type = ''FRAME'', data_frame_id = 1, data = 11, cell = Some 1\<rparr>,
      \<lparr>data_type = ''FRAME'', data_frame_id = 2, data = 12, cell = Some 2\<rparr>] \<and>
   map getFrameId (task_list ex_pre3) = [1, 2] \<and>
   addFrame ex_s2 12 True = (None, showFrames ex_pre3 True) \<and>
   sink_calls (showFrames ex_pre3 True) = [Show 10, Ilog 10] \<and>
   sink_calls (showFrames (ex_pre3\<lparr>data_cache := data_cache ex_s2\<rparr>) True) =
     [Show 10, Ilog 10] \<and>
   frames_of ex_calls = [10, 11] \<and>
   map data (frame_list (run (VideoTaskManager_init 2 1 True) ex_calls)) = [11]"
proof -
  let ?f0 = "\<lparr>data_type = ''FRAME'', data_frame_id = 0, data = 10::nat, cell = Some 0\<rparr>"
  let ?rest = "[\<lparr>data_type = ''FRAME'', data_frame_id = 1, data = 11::nat, cell = Some 1\<rparr>,
      \<lparr>data_type = ''FRAME'', data_frame_id = 2, data = 12, cell = Some 2\<rparr>]"
  have a: "frame_list ex_pre3 = ?f0 # ?rest"
    by (simp add: ex_pre3_eq)
  have b: "\<forall>task \<in> set (task_list ex_pre3). getFrameId task \<noteq> data_frame_id ?f0"
    by (simp add: ex_pre3_eq getFrameId_def waiting_task_def)
  have c: "map_of (data_cache ex_s2) (''FRAME'', 0) = Some ?f0"
    "map_of (data_cache ex_pre3) (''FRAME'', 0) = None"
    "map getFrameId (task_list ex_pre3) = [1, 2]"
    by (simp_all add: ex_s2_eq ex_pre3_eq getFrameId_def waiting_task_def)
  have d: "sink_calls (showFrames ex_pre3 True) = [Show 10, Ilog 10]"
    using ex_s3_eq ex_s3_showFrames by (simp add: ex_s3_def)
  have e: "frames_of ex_calls = [10, 11]"
    by (simp add: ex_calls_def)
  from C10_release_does_not_read_the_cache
    [where s = ex_pre3 and cache = "data_cache ex_s2" and ilog = True and frame_data = ?f0
      and rest = ?rest and calls = ex_calls and dbg = 2 and bsize = 1 and shw = True]
    a b c d e ex_s3_showFrames ex_calls_run(1)
  show ?thesis by simp
qed

end
